theory Spec2Isabelle
  imports Main "HOL-Library.Word"
begin

section \<open>The response screener of pkg/ipfs/screener.go\<close>

text \<open>
  The screener takes a client's \<open>StreamFilters\<close> and one block's \<open>IPLDPayload\<close> and builds a
  \<open>ResponsePayload\<close> in five passes (headers, transactions, receipts, state nodes, storage
  nodes). Each pass receives the filters through a pointer, the response through a pointer
  and the payload by value, assigns into the response, and returns an \<open>error\<close>.

  The embedding passes the three objects around as one record (\<open>mem\<close>): every assignment
  of the source is a record update, every \<open>return err\<close> an outcome \<open>Returns (Some err)\<close>,
  and every run-time panic of Go that the code can reach (an index beyond a slice, an
  assignment into a nil map) an outcome \<open>Panics\<close>.
\<close>

subsection \<open>Data\<close>

type_synonym int64 = "64 word"
type_synonym bytes = "8 word list"

text \<open>\<open>common.Hash\<close> is \<open>[32]byte\<close> and \<open>common.Address\<close> is \<open>[20]byte\<close>; the code only
  compares hashes for equality (\<open>bytes.Equal\<close> on the two arrays).\<close>

type_synonym hash = "256 word"
type_synonym address = "160 word"

text \<open>A Go map value is either \<open>nil\<close> (\<open>None\<close>) or an allocated table. Reading a nil map
  gives the zero value; assigning into it panics.\<close>

type_synonym ('k, 'v) gomap = "('k \<rightharpoonup> 'v) option"

datatype panic = NilMapAssignment | IndexOutOfRange

text \<open>How a pass ends: it returns its \<open>error\<close> (\<open>None\<close> is \<open>nil\<close>) or it panics.\<close>

datatype 'e completion = Returns "'e option" | Panics panic

record headerFilter =
  Off :: bool
  StartingBlock :: int64
  EndingBlock :: int64
  Uncles :: bool

record trxFilter =
  Off :: bool
  StartingBlock :: int64
  EndingBlock :: int64
  Src :: "string list"
  Dst :: "string list"

record receiptFilter =
  Off :: bool
  StartingBlock :: int64
  EndingBlock :: int64
  Topic0s :: "string list"

record stateFilter =
  Off :: bool
  StartingBlock :: int64
  EndingBlock :: int64
  Addresses :: "string list"
  IntermediateNodes :: bool

record storageFilter =
  Off :: bool
  StartingBlock :: int64
  EndingBlock :: int64
  Addresses :: "string list"
  StorageKeys :: "string list"

record StreamFilters =
  HeaderFilter :: headerFilter
  TrxFilter :: trxFilter
  ReceiptFilter :: receiptFilter
  StateFilter :: stateFilter
  StorageFilter :: storageFilter

record trxMetaData =
  Src :: string
  Dst :: string

record receiptMetaData =
  Topic0s :: "string list"

record StateNode =
  Leaf :: bool
  Value :: bytes

record StorageNode =
  Key :: hash
  Value :: bytes

record ('h, 't) blockBody =
  Uncles :: "'h list"
  Transactions :: "'t list"

text \<open>
  The payload of one block. The header, transaction and receipt types are go-ethereum's
  and stay type parameters. \<open>BlockNumber\<close> is a \<open>*big.Int\<close>; it, the block body and the
  filters are reached through pointers, which are taken to be non-nil, as the data model
  of the specification has them. The two Go maps of the payload
  are only ranged over, so they are association lists: the order of the list is the
  order in which the \<open>range\<close> statement happens to visit the entries, and the keys of a
  Go map are distinct (stated as a hypothesis where a theorem needs it).
\<close>

record ('h, 't, 'r) IPLDPayload =
  BlockNumber :: int
  HeaderRLP :: bytes
  BlockBody :: "('h, 't) blockBody"
  TrxMetaData :: "trxMetaData list"
  Receipts :: "'r list"
  ReceiptMetaData :: "receiptMetaData list"
  StateNodes :: "(hash \<times> StateNode) list"
  StorageNodes :: "(hash \<times> StorageNode list) list"

record ResponsePayload =
  HeadersRlp :: "bytes list"
  UnclesRlp :: "bytes list"
  TransactionsRlp :: "bytes list"
  ReceiptsRlp :: "bytes list"
  StateNodesRlp :: "(hash, bytes) gomap"
  StorageNodesRlp :: "(hash, (hash, bytes) gomap) gomap"

text \<open>\<open>new(ResponsePayload)\<close>: every field has its zero value, so the slices are empty and
  both maps are nil.\<close>

definition new_ResponsePayload :: ResponsePayload where
  "new_ResponsePayload =
     \<lparr>HeadersRlp = [], UnclesRlp = [], TransactionsRlp = [], ReceiptsRlp = [],
      StateNodesRlp = None, StorageNodesRlp = None\<rparr>"

text \<open>
  What the screener calls and does not define: the RLP encoders of go-ethereum
  (\<open>rlp.EncodeToBytes\<close> on an uncle header, \<open>EncodeRLP\<close> of a transaction and of a receipt
  into a fresh buffer, whose bytes are taken when the error is nil),
  \<open>common.HexToAddress\<close>, and the key derivations \<open>AddressToKey\<close> and \<open>HexToKey\<close> of this
  package, whose source is not part of the file. They are parameters of the model.
\<close>

record ('h, 't, 'r, 'e) lib =
  EncodeToBytes :: "'h \<Rightarrow> 'e + bytes"
  TrxEncodeRLP :: "'t \<Rightarrow> 'e + bytes"
  ReceiptEncodeRLP :: "'r \<Rightarrow> 'e + bytes"
  HexToAddress :: "string \<Rightarrow> address"
  AddressToKey :: "address \<Rightarrow> hash"
  HexToKey :: "string \<Rightarrow> hash"

text \<open>The three objects a pass can reach, named as the parameters of the passes are.\<close>

record ('h, 't, 'r) mem =
  streamFilters :: StreamFilters
  response :: ResponsePayload
  payload :: "('h, 't, 'r) IPLDPayload"

subsection \<open>Go primitives\<close>

text \<open>\<open>(*big.Int).Int64\<close>: the low 64 bits of the magnitude, negated for a negative number,
  which is the number modulo \<open>2 ^ 64\<close> read as two's complement.\<close>

definition Int64 :: "int \<Rightarrow> int64" where
  "Int64 x = word_of_int x"

text \<open>\<open>m[k] = v\<close>\<close>

definition mapassign :: "('k, 'v) gomap \<Rightarrow> 'k \<Rightarrow> 'v \<Rightarrow> panic + ('k, 'v) gomap" where
  "mapassign m k v =
     (case m of
        None \<Rightarrow> Inl NilMapAssignment
      | Some t \<Rightarrow> Inr (Some (t(k \<mapsto> v))))"

text \<open>\<open>m[k]\<close> where the values are maps themselves: a missing key (or a nil \<open>m\<close>) reads as the
  zero value, the nil map.\<close>

definition mapaccess :: "('k, ('j, 'v) gomap) gomap \<Rightarrow> 'k \<Rightarrow> ('j, 'v) gomap" where
  "mapaccess m k =
     (case m of
        None \<Rightarrow> None
      | Some t \<Rightarrow> (case t k of None \<Rightarrow> None | Some inner \<Rightarrow> inner))"

text \<open>\<open>m[k][j] = v\<close>: the inner map is read out of \<open>m\<close> and assigned into; maps are
  references, so the entry of \<open>m\<close> shows the assignment.\<close>

definition mapassign2 ::
  "('k, ('j, 'v) gomap) gomap \<Rightarrow> 'k \<Rightarrow> 'j \<Rightarrow> 'v \<Rightarrow> panic + ('k, ('j, 'v) gomap) gomap" where
  "mapassign2 m k j v =
     (case mapassign (mapaccess m k) j v of
        Inl p \<Rightarrow> Inl p
      | Inr inner \<Rightarrow> Inr (map_option (\<lambda>t. t(k \<mapsto> inner)) m))"

subsection \<open>The predicates\<close>

definition checkRange :: "int64 \<Rightarrow> int64 \<Rightarrow> int64 \<Rightarrow> bool" where
  "checkRange start end actual =
     (if (end \<le>s 0 \<or> actual \<le>s end) \<and> start \<le>s actual then True else False)"

text \<open>\<open>for _, x := range wanted { if x == actual { return true } }\<close>, falling through when
  no element is equal.\<close>

fun rangeEq :: "'a list \<Rightarrow> 'a \<Rightarrow> bool" where
  "rangeEq [] actual = False"
| "rangeEq (x # rest) actual = (if x = actual then True else rangeEq rest actual)"

definition checkTransactions :: "string list \<Rightarrow> string list \<Rightarrow> string \<Rightarrow> string \<Rightarrow> bool" where
  "checkTransactions wantedSrc wantedDst actualSrc actualDst =
     (if length wantedDst = 0 \<and> length wantedSrc = 0 then True
      else if rangeEq wantedSrc actualSrc then True
      else if rangeEq wantedDst actualDst then True
      else False)"

text \<open>The inner loop of \<open>checkReceipts\<close>, over the receipt's topics, and the outer one,
  over the wanted topics.\<close>

fun checkReceipts_inner :: "string \<Rightarrow> string list \<Rightarrow> bool" where
  "checkReceipts_inner wantedTopic [] = False"
| "checkReceipts_inner wantedTopic (actualTopic # rest) =
     (if wantedTopic = actualTopic then True else checkReceipts_inner wantedTopic rest)"

fun checkReceipts_loop :: "string list \<Rightarrow> string list \<Rightarrow> bool" where
  "checkReceipts_loop [] actualTopics = False"
| "checkReceipts_loop (wantedTopic # rest) actualTopics =
     (if checkReceipts_inner wantedTopic actualTopics then True
      else checkReceipts_loop rest actualTopics)"

definition checkReceipts :: "string list \<Rightarrow> string list \<Rightarrow> bool" where
  "checkReceipts wantedTopics actualTopics =
     (if length wantedTopics = 0 then True
      else checkReceipts_loop wantedTopics actualTopics)"

definition checkNodeKeys :: "hash list \<Rightarrow> hash \<Rightarrow> bool" where
  "checkNodeKeys wantedKeys actualKey =
     (if length wantedKeys = 0 then True else rangeEq wantedKeys actualKey)"

subsection \<open>The passes\<close>

text \<open>The loop over the uncles of \<open>filterHeaders\<close>; \<open>return nil\<close> follows it.\<close>

fun filterHeaders_loop ::
  "('h, 't, 'r, 'e) lib \<Rightarrow> 'h list \<Rightarrow> ('h, 't, 'r) mem \<Rightarrow> ('h, 't, 'r) mem \<times> 'e completion" where
  "filterHeaders_loop L [] m = (m, Returns None)"
| "filterHeaders_loop L (uncle # rest) m =
     (case EncodeToBytes L uncle of
        Inl err \<Rightarrow> (m, Returns (Some err))
      | Inr uncleRlp \<Rightarrow>
          filterHeaders_loop L rest
            (m\<lparr>response := (response m)\<lparr>UnclesRlp := UnclesRlp (response m) @ [uncleRlp]\<rparr>\<rparr>))"

definition filterHeaders ::
  "('h, 't, 'r, 'e) lib \<Rightarrow> ('h, 't, 'r) mem \<Rightarrow> ('h, 't, 'r) mem \<times> 'e completion" where
  "filterHeaders L m =
     (let f = HeaderFilter (streamFilters m) in
      if \<not> headerFilter.Off f \<and>
         checkRange (headerFilter.StartingBlock f) (headerFilter.EndingBlock f)
           (Int64 (BlockNumber (payload m)))
      then
        let m1 = m\<lparr>response :=
                    (response m)\<lparr>HeadersRlp := HeadersRlp (response m) @ [HeaderRLP (payload m)]\<rparr>\<rparr>
        in if headerFilter.Uncles f
           then filterHeaders_loop L (blockBody.Uncles (BlockBody (payload m1))) m1
           else (m1, Returns None)
      else (m, Returns None))"

text \<open>The loop of \<open>filterTransactions\<close>, at index \<open>i\<close> with the transactions from \<open>i\<close> on.
  \<open>payload.TrxMetaData[i]\<close> is read while the arguments of \<open>checkTransactions\<close> are
  evaluated, and panics when the metadata slice is too short.\<close>

fun filterTransactions_loop ::
  "('h, 't, 'r, 'e) lib \<Rightarrow> nat \<Rightarrow> 't list \<Rightarrow> ('h, 't, 'r) mem \<Rightarrow>
   ('h, 't, 'r) mem \<times> 'e completion" where
  "filterTransactions_loop L i [] m = (m, Returns None)"
| "filterTransactions_loop L i (trx # rest) m =
     (if i < length (TrxMetaData (payload m)) then
        if checkTransactions (trxFilter.Src (TrxFilter (streamFilters m)))
             (trxFilter.Dst (TrxFilter (streamFilters m)))
             (trxMetaData.Src (TrxMetaData (payload m) ! i))
             (trxMetaData.Dst (TrxMetaData (payload m) ! i))
        then
          (case TrxEncodeRLP L trx of
             Inl err \<Rightarrow> (m, Returns (Some err))
           | Inr trxBytes \<Rightarrow>
               filterTransactions_loop L (Suc i) rest
                 (m\<lparr>response :=
                      (response m)\<lparr>TransactionsRlp := TransactionsRlp (response m) @ [trxBytes]\<rparr>\<rparr>))
        else filterTransactions_loop L (Suc i) rest m
      else (m, Panics IndexOutOfRange))"

definition filterTransactions ::
  "('h, 't, 'r, 'e) lib \<Rightarrow> ('h, 't, 'r) mem \<Rightarrow> ('h, 't, 'r) mem \<times> 'e completion" where
  "filterTransactions L m =
     (let f = TrxFilter (streamFilters m) in
      if \<not> trxFilter.Off f \<and>
         checkRange (trxFilter.StartingBlock f) (trxFilter.EndingBlock f)
           (Int64 (BlockNumber (payload m)))
      then filterTransactions_loop L 0 (Transactions (BlockBody (payload m))) m
      else (m, Returns None))"

fun filerReceipts_loop ::
  "('h, 't, 'r, 'e) lib \<Rightarrow> nat \<Rightarrow> 'r list \<Rightarrow> ('h, 't, 'r) mem \<Rightarrow>
   ('h, 't, 'r) mem \<times> 'e completion" where
  "filerReceipts_loop L i [] m = (m, Returns None)"
| "filerReceipts_loop L i (receipt # rest) m =
     (if i < length (ReceiptMetaData (payload m)) then
        if checkReceipts (receiptFilter.Topic0s (ReceiptFilter (streamFilters m)))
             (receiptMetaData.Topic0s (ReceiptMetaData (payload m) ! i))
        then
          (case ReceiptEncodeRLP L receipt of
             Inl err \<Rightarrow> (m, Returns (Some err))
           | Inr receiptBytes \<Rightarrow>
               filerReceipts_loop L (Suc i) rest
                 (m\<lparr>response :=
                      (response m)\<lparr>ReceiptsRlp := ReceiptsRlp (response m) @ [receiptBytes]\<rparr>\<rparr>))
        else filerReceipts_loop L (Suc i) rest m
      else (m, Panics IndexOutOfRange))"

definition filerReceipts ::
  "('h, 't, 'r, 'e) lib \<Rightarrow> ('h, 't, 'r) mem \<Rightarrow> ('h, 't, 'r) mem \<times> 'e completion" where
  "filerReceipts L m =
     (let f = ReceiptFilter (streamFilters m) in
      if \<not> receiptFilter.Off f \<and>
         checkRange (receiptFilter.StartingBlock f) (receiptFilter.EndingBlock f)
           (Int64 (BlockNumber (payload m)))
      then filerReceipts_loop L 0 (Receipts (payload m)) m
      else (m, Returns None))"

text \<open>The loop of \<open>filterState\<close> over the entries of \<open>payload.StateNodes\<close>. Its body has no
  \<open>return\<close>: it ends normally (\<open>None\<close>) or panics. \<open>return nil\<close> follows it.\<close>

fun filterState_loop ::
  "hash list \<Rightarrow> (hash \<times> StateNode) list \<Rightarrow> ('h, 't, 'r) mem \<Rightarrow>
   ('h, 't, 'r) mem \<times> panic option" where
  "filterState_loop keyFilters [] m = (m, None)"
| "filterState_loop keyFilters ((key, stateNode) # rest) m =
     (if checkNodeKeys keyFilters key then
        if Leaf stateNode \<or> IntermediateNodes (StateFilter (streamFilters m)) then
          (case mapassign (StateNodesRlp (response m)) key (StateNode.Value stateNode) of
             Inl p \<Rightarrow> (m, Some p)
           | Inr nodes \<Rightarrow>
               filterState_loop keyFilters rest
                 (m\<lparr>response := (response m)\<lparr>StateNodesRlp := nodes\<rparr>\<rparr>))
        else filterState_loop keyFilters rest m
      else filterState_loop keyFilters rest m)"

definition filterState ::
  "('h, 't, 'r, 'e) lib \<Rightarrow> ('h, 't, 'r) mem \<Rightarrow> ('h, 't, 'r) mem \<times> 'e completion" where
  "filterState L m =
     (let m1 = m\<lparr>response := (response m)\<lparr>StateNodesRlp := Some Map.empty\<rparr>\<rparr>;
          f = StateFilter (streamFilters m1)
      in if \<not> stateFilter.Off f \<and>
            checkRange (stateFilter.StartingBlock f) (stateFilter.EndingBlock f)
              (Int64 (BlockNumber (payload m1)))
         then
           let keyFilters = map (\<lambda>addr. AddressToKey L (HexToAddress L addr)) (stateFilter.Addresses f)
           in (case filterState_loop keyFilters (StateNodes (payload m1)) m1 of
                 (m2, Some p) \<Rightarrow> (m2, Panics p)
               | (m2, None) \<Rightarrow> (m2, Returns None))
         else (m1, Returns None))"

text \<open>The inner loop of \<open>filterStorage\<close>, over the storage nodes of one account. It has no
  \<open>return\<close>; it ends normally (\<open>None\<close>) or panics.\<close>

fun filterStorage_inner ::
  "hash list \<Rightarrow> hash \<Rightarrow> StorageNode list \<Rightarrow> ('h, 't, 'r) mem \<Rightarrow>
   ('h, 't, 'r) mem \<times> panic option" where
  "filterStorage_inner storageKeyFilters stateKey [] m = (m, None)"
| "filterStorage_inner storageKeyFilters stateKey (storageNode # rest) m =
     (if checkNodeKeys storageKeyFilters (Key storageNode) then
        (case mapassign2 (StorageNodesRlp (response m)) stateKey (Key storageNode)
                (StorageNode.Value storageNode) of
           Inl p \<Rightarrow> (m, Some p)
         | Inr nodes \<Rightarrow>
             filterStorage_inner storageKeyFilters stateKey rest
               (m\<lparr>response := (response m)\<lparr>StorageNodesRlp := nodes\<rparr>\<rparr>))
      else filterStorage_inner storageKeyFilters stateKey rest m)"

text \<open>The outer loop, over the entries of \<open>payload.StorageNodes\<close>. Its first statement for
  a matching account is \<open>response.StorageNodesRlp[stateKey] = make(...)\<close>. It has no
  \<open>return\<close> either.\<close>

fun filterStorage_loop ::
  "hash list \<Rightarrow> hash list \<Rightarrow> (hash \<times> StorageNode list) list \<Rightarrow> ('h, 't, 'r) mem \<Rightarrow>
   ('h, 't, 'r) mem \<times> panic option" where
  "filterStorage_loop stateKeyFilters storageKeyFilters [] m = (m, None)"
| "filterStorage_loop stateKeyFilters storageKeyFilters ((stateKey, storageNodes) # rest) m =
     (if checkNodeKeys stateKeyFilters stateKey then
        (case mapassign (StorageNodesRlp (response m)) stateKey (Some Map.empty) of
           Inl p \<Rightarrow> (m, Some p)
         | Inr nodes \<Rightarrow>
             (case filterStorage_inner storageKeyFilters stateKey storageNodes
                     (m\<lparr>response := (response m)\<lparr>StorageNodesRlp := nodes\<rparr>\<rparr>) of
                (m', Some p) \<Rightarrow> (m', Some p)
              | (m', None) \<Rightarrow> filterStorage_loop stateKeyFilters storageKeyFilters rest m'))
      else filterStorage_loop stateKeyFilters storageKeyFilters rest m)"

definition filterStorage ::
  "('h, 't, 'r, 'e) lib \<Rightarrow> ('h, 't, 'r) mem \<Rightarrow> ('h, 't, 'r) mem \<times> 'e completion" where
  "filterStorage L m =
     (let f = StorageFilter (streamFilters m) in
      if \<not> storageFilter.Off f \<and>
         checkRange (storageFilter.StartingBlock f) (storageFilter.EndingBlock f)
           (Int64 (BlockNumber (payload m)))
      then
        let stateKeyFilters =
              map (\<lambda>addr. AddressToKey L (HexToAddress L addr)) (storageFilter.Addresses f);
            storageKeyFilters = map (\<lambda>store. HexToKey L store) (StorageKeys f)
        in (case filterStorage_loop stateKeyFilters storageKeyFilters (StorageNodes (payload m)) m of
              (m1, Some p) \<Rightarrow> (m1, Panics p)
            | (m1, None) \<Rightarrow> (m1, Returns None))
      else (m, Returns None))"

subsection \<open>ScreenResponse\<close>

text \<open>What the caller of \<open>ScreenResponse\<close> sees: the pair of a response pointer and an error
  (\<open>None\<close> is \<open>nil\<close> in both), or a panic.\<close>

datatype 'e result = Returned "ResponsePayload option" "'e option" | Panicked panic

text \<open>\<open>ScreenResponse\<close> gives the memory after the call, too, so that what the call did to
  its arguments can be stated.\<close>

definition ScreenResponse ::
  "('h, 't, 'r, 'e) lib \<Rightarrow> StreamFilters \<Rightarrow> ('h, 't, 'r) IPLDPayload \<Rightarrow>
   ('h, 't, 'r) mem \<times> 'e result" where
  "ScreenResponse L filters block =
     (let m0 = \<lparr>streamFilters = filters, response = new_ResponsePayload, payload = block\<rparr> in
      case filterHeaders L m0 of
        (m1, Panics p) \<Rightarrow> (m1, Panicked p)
      | (m1, Returns (Some err)) \<Rightarrow> (m1, Returned None (Some err))
      | (m1, Returns None) \<Rightarrow>
      (case filterTransactions L m1 of
        (m2, Panics p) \<Rightarrow> (m2, Panicked p)
      | (m2, Returns (Some err)) \<Rightarrow> (m2, Returned None (Some err))
      | (m2, Returns None) \<Rightarrow>
      (case filerReceipts L m2 of
        (m3, Panics p) \<Rightarrow> (m3, Panicked p)
      | (m3, Returns (Some err)) \<Rightarrow> (m3, Returned None (Some err))
      | (m3, Returns None) \<Rightarrow>
      (case filterState L m3 of
        (m4, Panics p) \<Rightarrow> (m4, Panicked p)
      | (m4, Returns (Some err)) \<Rightarrow> (m4, Returned None (Some err))
      | (m4, Returns None) \<Rightarrow>
      (case filterStorage L m4 of
        (m5, Panics p) \<Rightarrow> (m5, Panicked p)
      | (m5, Returns (Some err)) \<Rightarrow> (m5, Returned None (Some err))
      | (m5, Returns None) \<Rightarrow> (m5, Returned (Some (response m5)) None))))))"

subsection \<open>Encoding a list in order\<close>

text \<open>What the three encoding loops have in common, for stating their results: the
  encodings of the elements in order, up to the first one that fails, and the error of
  that one.\<close>

fun encodeAll :: "('a \<Rightarrow> 'e + bytes) \<Rightarrow> 'a list \<Rightarrow> bytes list \<times> 'e option" where
  "encodeAll enc [] = ([], None)"
| "encodeAll enc (x # xs) =
     (case enc x of
        Inl err \<Rightarrow> ([], Some err)
      | Inr b \<Rightarrow> (b # fst (encodeAll enc xs), snd (encodeAll enc xs)))"

subsection \<open>The matching items of a payload\<close>

text \<open>The transactions that match a filter, in the payload's order: those whose metadata,
  at the same position, \<open>checkTransactions\<close> accepts. Likewise for the receipts.\<close>

definition matchedTrxs :: "StreamFilters \<Rightarrow> 't list \<Rightarrow> trxMetaData list \<Rightarrow> 't list" where
  "matchedTrxs f trxs mds =
     map fst (filter (\<lambda>(trx, md).
         checkTransactions (trxFilter.Src (TrxFilter f)) (trxFilter.Dst (TrxFilter f))
           (trxMetaData.Src md) (trxMetaData.Dst md))
       (zip trxs mds))"

definition matchedReceipts :: "StreamFilters \<Rightarrow> 'r list \<Rightarrow> receiptMetaData list \<Rightarrow> 'r list" where
  "matchedReceipts f receipts mds =
     map fst (filter (\<lambda>(receipt, md).
         checkReceipts (receiptFilter.Topic0s (ReceiptFilter f)) (receiptMetaData.Topic0s md))
       (zip receipts mds))"

subsection \<open>Example inputs\<close>

text \<open>Encoders that fail on \<open>0\<close> and give a one-byte encoding otherwise, over headers,
  transactions and receipts that are numbers; key derivations that tell two addresses and
  two storage keys apart.\<close>

definition exampleLib :: "(nat, nat, nat, string) lib" where
  "exampleLib =
     \<lparr>EncodeToBytes = (\<lambda>h. if h = 0 then Inl ''rlp: bad header'' else Inr [of_nat h]),
      TrxEncodeRLP = (\<lambda>t. if t = 0 then Inl ''rlp: bad transaction'' else Inr [of_nat t]),
      ReceiptEncodeRLP = (\<lambda>r. if r = 0 then Inl ''rlp: bad receipt'' else Inr [of_nat r]),
      HexToAddress = (\<lambda>s. if s = ''0xA'' then 1 else 2),
      AddressToKey = (\<lambda>a. if a = 1 then 10 else 20),
      HexToKey = (\<lambda>s. if s = ''0x1'' then 1 else 2)\<rparr>"

text \<open>Filters with the storage pass off, and the same filters with it on.\<close>

definition exampleFilters :: StreamFilters where
  "exampleFilters =
     \<lparr>HeaderFilter = \<lparr>headerFilter.Off = False, StartingBlock = 100, EndingBlock = 200,
                      Uncles = True\<rparr>,
      TrxFilter = \<lparr>trxFilter.Off = False, StartingBlock = 100, EndingBlock = 200,
                   Src = [''0xA''], Dst = [''0xB'']\<rparr>,
      ReceiptFilter = \<lparr>receiptFilter.Off = False, StartingBlock = 100, EndingBlock = 200,
                       Topic0s = [''0x1'', ''0x2'']\<rparr>,
      StateFilter = \<lparr>stateFilter.Off = False, StartingBlock = 100, EndingBlock = 0,
                     Addresses = [''0xA'', ''0xD''], IntermediateNodes = False\<rparr>,
      StorageFilter = \<lparr>storageFilter.Off = True, StartingBlock = 0, EndingBlock = 0,
                       Addresses = [], StorageKeys = []\<rparr>\<rparr>"

definition exampleStorageFilters :: StreamFilters where
  "exampleStorageFilters =
     exampleFilters\<lparr>StorageFilter :=
       \<lparr>storageFilter.Off = False, StartingBlock = 100, EndingBlock = 200,
        Addresses = [''0xA''], StorageKeys = [''0x1'']\<rparr>\<rparr>"

text \<open>Filters with every pass off (the state filter starts at block 200, too), and filters
  with only the storage pass on and no address or key asked for.\<close>

definition exampleOffFilters :: StreamFilters where
  "exampleOffFilters =
     \<lparr>HeaderFilter = \<lparr>headerFilter.Off = True, StartingBlock = 0, EndingBlock = 0,
                      Uncles = True\<rparr>,
      TrxFilter = \<lparr>trxFilter.Off = True, StartingBlock = 0, EndingBlock = 0,
                   Src = [], Dst = []\<rparr>,
      ReceiptFilter = \<lparr>receiptFilter.Off = True, StartingBlock = 0, EndingBlock = 0,
                       Topic0s = []\<rparr>,
      StateFilter = \<lparr>stateFilter.Off = True, StartingBlock = 200, EndingBlock = 0,
                     Addresses = [], IntermediateNodes = True\<rparr>,
      StorageFilter = \<lparr>storageFilter.Off = True, StartingBlock = 0, EndingBlock = 0,
                       Addresses = [], StorageKeys = []\<rparr>\<rparr>"

definition exampleOnlyStorageFilters :: StreamFilters where
  "exampleOnlyStorageFilters =
     exampleOffFilters\<lparr>StorageFilter :=
       \<lparr>storageFilter.Off = False, StartingBlock = 0, EndingBlock = 0,
        Addresses = [], StorageKeys = []\<rparr>\<rparr>"

text \<open>Block 150: two uncles, three transactions, two receipts, a leaf and an intermediate
  state node, and one account with two storage nodes.\<close>

definition exampleBlock :: "(nat, nat, nat) IPLDPayload" where
  "exampleBlock =
     \<lparr>BlockNumber = 150, HeaderRLP = [7],
      BlockBody = \<lparr>Uncles = [1, 2], Transactions = [1, 2, 3]\<rparr>,
      TrxMetaData = [\<lparr>Src = ''0xA'', Dst = ''0xC''\<rparr>, \<lparr>Src = ''0xZ'', Dst = ''0xC''\<rparr>,
                     \<lparr>Src = ''0xZ'', Dst = ''0xB''\<rparr>],
      Receipts = [1, 2],
      ReceiptMetaData = [\<lparr>Topic0s = [''0x3'']\<rparr>, \<lparr>Topic0s = [''0x2'', ''0x9'']\<rparr>],
      StateNodes = [(10, \<lparr>Leaf = True, Value = [1]\<rparr>), (20, \<lparr>Leaf = False, Value = [2]\<rparr>)],
      StorageNodes = [(10, [\<lparr>Key = 1, Value = [5]\<rparr>, \<lparr>Key = 2, Value = [6]\<rparr>])]\<rparr>"

definition exampleMem :: "(nat, nat, nat) mem" where
  "exampleMem =
     \<lparr>streamFilters = exampleFilters, response = new_ResponsePayload, payload = exampleBlock\<rparr>"

section \<open>Properties of the predicates\<close>

lemma checkRange_iff:
  "checkRange start end actual \<longleftrightarrow>
     sint start \<le> sint actual \<and> (sint end \<le> 0 \<or> sint actual \<le> sint end)"
  by (auto simp: checkRange_def word_sle_eq)

text \<open>
  Claim C2. On all 64-bit signed \<open>start\<close>, \<open>end\<close> and \<open>actual\<close>, \<open>checkRange\<close> is true exactly
  when \<open>actual \<ge> start\<close> and (\<open>end \<le> 0\<close> or \<open>actual \<le> end\<close>), the comparisons being the
  signed ones. So it is true on \<open>(0, 0, N)\<close> for every \<open>N \<ge> 0\<close> and on \<open>(100, 0, 500)\<close>,
  false on \<open>(100, 200, 50)\<close>, true on \<open>(100, 200, 150)\<close> and false on \<open>(100, 200, 300)\<close>.
\<close>

theorem checkRange_spec:
  "(checkRange start end actual \<longleftrightarrow>
      sint actual \<ge> sint start \<and> (sint end \<le> 0 \<or> sint actual \<le> sint end))
   \<and> (0 \<le> sint N \<longrightarrow> checkRange 0 0 N)
   \<and> checkRange 100 0 500
   \<and> \<not> checkRange 100 200 50
   \<and> checkRange 100 200 150
   \<and> \<not> checkRange 100 200 300"
  by (auto simp: checkRange_def word_sle_eq)

theorem checkRange_spec_witness:
  "0 \<le> sint (7 :: int64) \<and> checkRange 0 0 7 \<and> checkRange 100 200 150
   \<and> \<not> checkRange 100 200 300 \<and> \<not> checkRange 0 0 (- 1)"
  using checkRange_spec [of 0 0 "- 1" 7] by simp

lemma rangeEq_iff: "rangeEq xs a \<longleftrightarrow> a \<in> set xs"
  by (induction xs) auto

lemma checkReceipts_inner_iff: "checkReceipts_inner w as \<longleftrightarrow> w \<in> set as"
  by (induction as) auto

lemma checkReceipts_loop_iff: "checkReceipts_loop ws as \<longleftrightarrow> set ws \<inter> set as \<noteq> {}"
  by (induction ws) (auto simp: checkReceipts_inner_iff)

lemma checkTransactions_iff:
  "checkTransactions wantedSrc wantedDst actualSrc actualDst \<longleftrightarrow>
     (wantedSrc = [] \<and> wantedDst = []) \<or> actualSrc \<in> set wantedSrc \<or> actualDst \<in> set wantedDst"
  by (auto simp: checkTransactions_def rangeEq_iff)

lemma checkReceipts_iff:
  "checkReceipts wantedTopics actualTopics \<longleftrightarrow>
     wantedTopics = [] \<or> set wantedTopics \<inter> set actualTopics \<noteq> {}"
  by (auto simp: checkReceipts_def checkReceipts_loop_iff)

lemma checkNodeKeys_iff:
  "checkNodeKeys wantedKeys actualKey \<longleftrightarrow> wantedKeys = [] \<or> actualKey \<in> set wantedKeys"
  by (auto simp: checkNodeKeys_def rangeEq_iff)

section \<open>The loops\<close>

lemma encodeAll_None:
  "snd (encodeAll enc xs) = None \<Longrightarrow> map enc xs = map Inr (fst (encodeAll enc xs))"
  by (induction xs) (auto split: sum.splits)

lemma encodeAll_Some:
  "snd (encodeAll enc xs) = Some err \<Longrightarrow>
   \<exists>k < length xs. map enc (take k xs) = map Inr (fst (encodeAll enc xs)) \<and> enc (xs ! k) = Inl err"
proof (induction xs)
  case Nil
  then show ?case by simp
next
  case (Cons x xs)
  show ?case
  proof (cases "enc x")
    case (Inl e)
    with Cons.prems show ?thesis by (intro exI [of _ 0]) simp
  next
    case (Inr b)
    with Cons obtain k where "k < length xs"
      "map enc (take k xs) = map Inr (fst (encodeAll enc xs))" "enc (xs ! k) = Inl err"
      by auto
    with Inr show ?thesis by (intro exI [of _ "Suc k"]) simp
  qed
qed

lemma filterHeaders_loop_eq:
  "filterHeaders_loop L us m =
     (m\<lparr>response := (response m)\<lparr>UnclesRlp :=
           UnclesRlp (response m) @ fst (encodeAll (EncodeToBytes L) us)\<rparr>\<rparr>,
      Returns (snd (encodeAll (EncodeToBytes L) us)))"
  by (induction us arbitrary: m) (auto split: sum.splits)

lemma filterTransactions_loop_eq:
  "filterTransactions_loop L i ts m =
     (let E = encodeAll (TrxEncodeRLP L)
                (matchedTrxs (streamFilters m) ts (drop i (TrxMetaData (payload m))))
      in (m\<lparr>response := (response m)\<lparr>TransactionsRlp := TransactionsRlp (response m) @ fst E\<rparr>\<rparr>,
          case snd E of
            Some err \<Rightarrow> Returns (Some err)
          | None \<Rightarrow> if length ts \<le> length (TrxMetaData (payload m)) - i then Returns None
                    else Panics IndexOutOfRange))"
proof (induction ts arbitrary: i m)
  case Nil
  then show ?case by (simp add: matchedTrxs_def)
next
  case (Cons t ts)
  show ?case
  proof (cases "i < length (TrxMetaData (payload m))")
    case False
    then show ?thesis by (simp add: matchedTrxs_def)
  next
    case True
    then have d: "drop i (TrxMetaData (payload m)) =
        TrxMetaData (payload m) ! i # drop (Suc i) (TrxMetaData (payload m))"
      by (simp add: Cons_nth_drop_Suc)
    have le: "Suc (length ts) \<le> length (TrxMetaData (payload m)) - i \<longleftrightarrow>
              length ts \<le> length (TrxMetaData (payload m)) - Suc i"
      using True by arith
    show ?thesis
    proof (cases "checkTransactions (trxFilter.Src (TrxFilter (streamFilters m)))
             (trxFilter.Dst (TrxFilter (streamFilters m)))
             (trxMetaData.Src (TrxMetaData (payload m) ! i))
             (trxMetaData.Dst (TrxMetaData (payload m) ! i))")
      case False
      with True show ?thesis by (simp add: d Cons.IH Let_def le matchedTrxs_def)
    next
      case match: True
      show ?thesis
      proof (cases "TrxEncodeRLP L t")
        case (Inl e)
        with True match show ?thesis by (simp add: d Let_def matchedTrxs_def)
      next
        case (Inr b)
        with True match show ?thesis by (simp add: d Cons.IH Let_def le matchedTrxs_def)
      qed
    qed
  qed
qed

lemma filerReceipts_loop_eq:
  "filerReceipts_loop L i rs m =
     (let E = encodeAll (ReceiptEncodeRLP L)
                (matchedReceipts (streamFilters m) rs (drop i (ReceiptMetaData (payload m))))
      in (m\<lparr>response := (response m)\<lparr>ReceiptsRlp := ReceiptsRlp (response m) @ fst E\<rparr>\<rparr>,
          case snd E of
            Some err \<Rightarrow> Returns (Some err)
          | None \<Rightarrow> if length rs \<le> length (ReceiptMetaData (payload m)) - i then Returns None
                    else Panics IndexOutOfRange))"
proof (induction rs arbitrary: i m)
  case Nil
  then show ?case by (simp add: matchedReceipts_def)
next
  case (Cons r rs)
  show ?case
  proof (cases "i < length (ReceiptMetaData (payload m))")
    case False
    then show ?thesis by (simp add: matchedReceipts_def)
  next
    case True
    then have d: "drop i (ReceiptMetaData (payload m)) =
        ReceiptMetaData (payload m) ! i # drop (Suc i) (ReceiptMetaData (payload m))"
      by (simp add: Cons_nth_drop_Suc)
    have le: "Suc (length rs) \<le> length (ReceiptMetaData (payload m)) - i \<longleftrightarrow>
              length rs \<le> length (ReceiptMetaData (payload m)) - Suc i"
      using True by arith
    show ?thesis
    proof (cases "checkReceipts (receiptFilter.Topic0s (ReceiptFilter (streamFilters m)))
             (receiptMetaData.Topic0s (ReceiptMetaData (payload m) ! i))")
      case False
      with True show ?thesis by (simp add: d Cons.IH Let_def le matchedReceipts_def)
    next
      case match: True
      show ?thesis
      proof (cases "ReceiptEncodeRLP L r")
        case (Inl e)
        with True match show ?thesis by (simp add: d Let_def matchedReceipts_def)
      next
        case (Inr b)
        with True match show ?thesis by (simp add: d Cons.IH Let_def le matchedReceipts_def)
      qed
    qed
  qed
qed

lemma filterState_loop_shape:
  "StateNodesRlp (response m) = Some M \<Longrightarrow>
   \<exists>M'. filterState_loop kf ns m =
          (m\<lparr>response := (response m)\<lparr>StateNodesRlp := Some M'\<rparr>\<rparr>, None)"
proof (induction ns arbitrary: m M)
  case Nil
  then show ?case by (intro exI [of _ M]) simp
next
  case (Cons e ns)
  obtain key node where e: "e = (key, node)" by (cases e)
  show ?case
  proof (cases "checkNodeKeys kf key \<and> (Leaf node \<or> IntermediateNodes (StateFilter (streamFilters m)))")
    case False
    with Cons.IH [OF Cons.prems] e show ?thesis by auto
  next
    case True
    let ?m = "m\<lparr>response := (response m)\<lparr>StateNodesRlp := Some (M(key \<mapsto> StateNode.Value node))\<rparr>\<rparr>"
    have "StateNodesRlp (response ?m) = Some (M(key \<mapsto> StateNode.Value node))" by simp
    from Cons.IH [OF this] obtain M' where
      "filterState_loop kf ns ?m = (m\<lparr>response := (response m)\<lparr>StateNodesRlp := Some M'\<rparr>\<rparr>, None)"
      by auto
    with True e Cons.prems show ?thesis
      by (intro exI [of _ M']) (simp add: mapassign_def)
  qed
qed

lemma filterState_loop_lookup:
  "StateNodesRlp (response m) = Some M \<Longrightarrow> distinct (map fst ns) \<Longrightarrow>
   StateNodesRlp (response (fst (filterState_loop kf ns m))) = Some M' \<Longrightarrow>
   M' k = (case map_of ns k of
             Some node \<Rightarrow>
               if checkNodeKeys kf k \<and> (Leaf node \<or> IntermediateNodes (StateFilter (streamFilters m)))
               then Some (StateNode.Value node) else M k
           | None \<Rightarrow> M k)"
proof (induction ns arbitrary: m M)
  case Nil
  then show ?case by simp
next
  case (Cons e ns)
  obtain key node where e: "e = (key, node)" by (cases e)
  from Cons.prems(2) e have dist: "distinct (map fst ns)" and notin: "map_of ns key = None"
    by (auto simp: map_of_eq_None_iff)
  show ?case
  proof (cases "checkNodeKeys kf key \<and> (Leaf node \<or> IntermediateNodes (StateFilter (streamFilters m)))")
    case False
    then have "filterState_loop kf (e # ns) m = filterState_loop kf ns m"
      using e by auto
    with Cons.prems(3) have "StateNodesRlp (response (fst (filterState_loop kf ns m))) = Some M'"
      by simp
    from Cons.IH [OF Cons.prems(1) dist this] False e notin show ?thesis
      by (auto split: option.splits)
  next
    case True
    let ?m = "m\<lparr>response := (response m)\<lparr>StateNodesRlp := Some (M(key \<mapsto> StateNode.Value node))\<rparr>\<rparr>"
    have 1: "StateNodesRlp (response ?m) = Some (M(key \<mapsto> StateNode.Value node))" by simp
    from True e Cons.prems(1) have "filterState_loop kf (e # ns) m = filterState_loop kf ns ?m"
      by (auto simp: mapassign_def)
    with Cons.prems(3) have "StateNodesRlp (response (fst (filterState_loop kf ns ?m))) = Some M'"
      by simp
    from Cons.IH [OF 1 dist this] True e notin show ?thesis
      by (auto split: option.splits)
  qed
qed

lemma filterStorage_loop_nil:
  "StorageNodesRlp (response m) = None \<Longrightarrow>
   filterStorage_loop skf stkf es m =
     (m, if \<exists>e \<in> set es. checkNodeKeys skf (fst e) then Some NilMapAssignment else None)"
proof (induction es)
  case Nil
  then show ?case by simp
next
  case (Cons e es)
  obtain stateKey nodes where e: "e = (stateKey, nodes)" by (cases e)
  show ?case
  proof (cases "checkNodeKeys skf stateKey")
    case True
    with e Cons.prems show ?thesis by (simp add: mapassign_def)
  next
    case False
    with e Cons show ?thesis by simp
  qed
qed

section \<open>The passes\<close>

lemma filterHeaders_eq:
  "filterHeaders L m =
     (if \<not> headerFilter.Off (HeaderFilter (streamFilters m)) \<and>
         checkRange (headerFilter.StartingBlock (HeaderFilter (streamFilters m)))
           (headerFilter.EndingBlock (HeaderFilter (streamFilters m)))
           (Int64 (BlockNumber (payload m)))
      then
        let E = (if headerFilter.Uncles (HeaderFilter (streamFilters m))
                 then encodeAll (EncodeToBytes L) (blockBody.Uncles (BlockBody (payload m)))
                 else ([], None))
        in (m\<lparr>response := (response m)
               \<lparr>HeadersRlp := HeadersRlp (response m) @ [HeaderRLP (payload m)],
                UnclesRlp := UnclesRlp (response m) @ fst E\<rparr>\<rparr>,
            Returns (snd E))
      else (m, Returns None))"
  by (simp add: filterHeaders_def filterHeaders_loop_eq Let_def)

lemma filterTransactions_eq:
  "filterTransactions L m =
     (if \<not> trxFilter.Off (TrxFilter (streamFilters m)) \<and>
         checkRange (trxFilter.StartingBlock (TrxFilter (streamFilters m)))
           (trxFilter.EndingBlock (TrxFilter (streamFilters m)))
           (Int64 (BlockNumber (payload m)))
      then
        let E = encodeAll (TrxEncodeRLP L)
                  (matchedTrxs (streamFilters m) (Transactions (BlockBody (payload m)))
                     (TrxMetaData (payload m)))
        in (m\<lparr>response := (response m)\<lparr>TransactionsRlp := TransactionsRlp (response m) @ fst E\<rparr>\<rparr>,
            case snd E of
              Some err \<Rightarrow> Returns (Some err)
            | None \<Rightarrow>
                if length (Transactions (BlockBody (payload m))) \<le> length (TrxMetaData (payload m))
                then Returns None else Panics IndexOutOfRange)
      else (m, Returns None))"
  by (simp add: filterTransactions_def filterTransactions_loop_eq Let_def)

lemma filerReceipts_eq:
  "filerReceipts L m =
     (if \<not> receiptFilter.Off (ReceiptFilter (streamFilters m)) \<and>
         checkRange (receiptFilter.StartingBlock (ReceiptFilter (streamFilters m)))
           (receiptFilter.EndingBlock (ReceiptFilter (streamFilters m)))
           (Int64 (BlockNumber (payload m)))
      then
        let E = encodeAll (ReceiptEncodeRLP L)
                  (matchedReceipts (streamFilters m) (Receipts (payload m))
                     (ReceiptMetaData (payload m)))
        in (m\<lparr>response := (response m)\<lparr>ReceiptsRlp := ReceiptsRlp (response m) @ fst E\<rparr>\<rparr>,
            case snd E of
              Some err \<Rightarrow> Returns (Some err)
            | None \<Rightarrow>
                if length (Receipts (payload m)) \<le> length (ReceiptMetaData (payload m))
                then Returns None else Panics IndexOutOfRange)
      else (m, Returns None))"
  by (simp add: filerReceipts_def filerReceipts_loop_eq Let_def)

lemma filterState_shape:
  "\<exists>M. filterState L m = (m\<lparr>response := (response m)\<lparr>StateNodesRlp := Some M\<rparr>\<rparr>, Returns None)
       \<and> (stateFilter.Off (StateFilter (streamFilters m)) \<or>
          \<not> checkRange (stateFilter.StartingBlock (StateFilter (streamFilters m)))
              (stateFilter.EndingBlock (StateFilter (streamFilters m)))
              (Int64 (BlockNumber (payload m))) \<longrightarrow> M = Map.empty)"
proof (cases "\<not> stateFilter.Off (StateFilter (streamFilters m)) \<and>
            checkRange (stateFilter.StartingBlock (StateFilter (streamFilters m)))
              (stateFilter.EndingBlock (StateFilter (streamFilters m)))
              (Int64 (BlockNumber (payload m)))")
  case False
  then show ?thesis
    by (intro exI [of _ Map.empty]) (auto simp: filterState_def)
next
  case True
  let ?m1 = "m\<lparr>response := (response m)\<lparr>StateNodesRlp := Some Map.empty\<rparr>\<rparr>"
  let ?kf = "map (\<lambda>addr. AddressToKey L (HexToAddress L addr))
               (stateFilter.Addresses (StateFilter (streamFilters m)))"
  have "StateNodesRlp (response ?m1) = Some Map.empty" by simp
  from filterState_loop_shape [OF this, of ?kf "StateNodes (payload m)"]
  obtain M where "filterState_loop ?kf (StateNodes (payload m)) ?m1 =
      (m\<lparr>response := (response m)\<lparr>StateNodesRlp := Some M\<rparr>\<rparr>, None)"
    by auto
  with True show ?thesis
    by (intro exI [of _ M]) (simp add: filterState_def)
qed

lemma filterStorage_inner_frame:
  "filterStorage_inner stkf stateKey ns m = (m', c) \<Longrightarrow>
   \<exists>T. m' = m\<lparr>response := (response m)\<lparr>StorageNodesRlp := T\<rparr>\<rparr>"
proof (induction ns arbitrary: m)
  case Nil
  then show ?case by (intro exI [of _ "StorageNodesRlp (response m)"]) simp
next
  case (Cons n ns)
  show ?case
  proof (cases "checkNodeKeys stkf (Key n)")
    case False
    with Cons show ?thesis by simp
  next
    case True
    show ?thesis
    proof (cases "mapassign2 (StorageNodesRlp (response m)) stateKey (Key n) (StorageNode.Value n)")
      case (Inl p)
      with True Cons.prems show ?thesis
        by (intro exI [of _ "StorageNodesRlp (response m)"]) simp
    next
      case (Inr T)
      with True Cons.prems have
        "filterStorage_inner stkf stateKey ns (m\<lparr>response := (response m)\<lparr>StorageNodesRlp := T\<rparr>\<rparr>) = (m', c)"
        by simp
      from Cons.IH [OF this] show ?thesis by auto
    qed
  qed
qed

lemma filterStorage_loop_frame:
  "filterStorage_loop skf stkf es m = (m', c) \<Longrightarrow>
   \<exists>T. m' = m\<lparr>response := (response m)\<lparr>StorageNodesRlp := T\<rparr>\<rparr>"
proof (induction es arbitrary: m)
  case Nil
  then show ?case by (intro exI [of _ "StorageNodesRlp (response m)"]) simp
next
  case (Cons e es)
  obtain stateKey ns where e: "e = (stateKey, ns)" by (cases e)
  show ?case
  proof (cases "checkNodeKeys skf stateKey")
    case False
    with Cons e show ?thesis by simp
  next
    case True
    show ?thesis
    proof (cases "mapassign (StorageNodesRlp (response m)) stateKey (Some Map.empty)")
      case (Inl p)
      with True e Cons.prems show ?thesis
        by (intro exI [of _ "StorageNodesRlp (response m)"]) simp
    next
      case (Inr T)
      let ?m = "m\<lparr>response := (response m)\<lparr>StorageNodesRlp := T\<rparr>\<rparr>"
      obtain m1 c1 where inner: "filterStorage_inner stkf stateKey ns ?m = (m1, c1)"
        by (cases "filterStorage_inner stkf stateKey ns ?m")
      from filterStorage_inner_frame [OF inner] obtain T1 where
        m1: "m1 = m\<lparr>response := (response m)\<lparr>StorageNodesRlp := T1\<rparr>\<rparr>" by auto
      show ?thesis
      proof (cases c1)
        case (Some p)
        with True e Inr inner Cons.prems m1 show ?thesis by auto
      next
        case None
        with True e Inr inner Cons.prems have "filterStorage_loop skf stkf es m1 = (m', c)"
          by simp
        from Cons.IH [OF this] m1 show ?thesis by auto
      qed
    qed
  qed
qed

lemma filterStorage_frame:
  "filterStorage L m = (m', c) \<Longrightarrow>
   \<exists>T. m' = m\<lparr>response := (response m)\<lparr>StorageNodesRlp := T\<rparr>\<rparr>"
proof (cases "\<not> storageFilter.Off (StorageFilter (streamFilters m)) \<and>
         checkRange (storageFilter.StartingBlock (StorageFilter (streamFilters m)))
           (storageFilter.EndingBlock (StorageFilter (streamFilters m)))
           (Int64 (BlockNumber (payload m)))")
  case False
  assume "filterStorage L m = (m', c)"
  with False show ?thesis
    by (intro exI [of _ "StorageNodesRlp (response m)"]) (auto simp: filterStorage_def)
next
  case True
  assume a: "filterStorage L m = (m', c)"
  let ?loop = "filterStorage_loop
        (map (\<lambda>addr. AddressToKey L (HexToAddress L addr))
           (storageFilter.Addresses (StorageFilter (streamFilters m))))
        (map (\<lambda>store. HexToKey L store) (StorageKeys (StorageFilter (streamFilters m))))
        (StorageNodes (payload m)) m"
  obtain m1 c1 where l: "?loop = (m1, c1)" by (cases ?loop)
  with True a have "m' = m1" by (auto simp: filterStorage_def split: option.splits)
  with filterStorage_loop_frame [OF l] show ?thesis by simp
qed

lemma filterStorage_nil:
  "StorageNodesRlp (response m) = None \<Longrightarrow>
   filterStorage L m =
     (m, if \<not> storageFilter.Off (StorageFilter (streamFilters m)) \<and>
            checkRange (storageFilter.StartingBlock (StorageFilter (streamFilters m)))
              (storageFilter.EndingBlock (StorageFilter (streamFilters m)))
              (Int64 (BlockNumber (payload m))) \<and>
            (\<exists>e \<in> set (StorageNodes (payload m)).
               checkNodeKeys (map (\<lambda>addr. AddressToKey L (HexToAddress L addr))
                 (storageFilter.Addresses (StorageFilter (streamFilters m)))) (fst e))
         then Panics NilMapAssignment else Returns None)"
  by (auto simp: filterStorage_def filterStorage_loop_nil Let_def)

section \<open>The whole call\<close>

lemma ScreenResponse_success:
  assumes "snd (ScreenResponse L f p) = Returned (Some r) None"
  shows "\<exists>m1 m2 m3 m4 m5.
     filterHeaders L \<lparr>streamFilters = f, response = new_ResponsePayload, payload = p\<rparr>
       = (m1, Returns None)
     \<and> filterTransactions L m1 = (m2, Returns None)
     \<and> filerReceipts L m2 = (m3, Returns None)
     \<and> filterState L m3 = (m4, Returns None)
     \<and> filterStorage L m4 = (m5, Returns None)
     \<and> r = response m5"
  using assms
  by (auto simp: ScreenResponse_def Let_def split: prod.splits completion.splits option.splits)

lemma filterHeaders_success:
  assumes "filterHeaders L m = (m', Returns None)"
  shows "\<exists>us. m' = m\<lparr>response := (response m)
               \<lparr>HeadersRlp := HeadersRlp (response m) @
                  (if \<not> headerFilter.Off (HeaderFilter (streamFilters m)) \<and>
                      checkRange (headerFilter.StartingBlock (HeaderFilter (streamFilters m)))
                        (headerFilter.EndingBlock (HeaderFilter (streamFilters m)))
                        (Int64 (BlockNumber (payload m)))
                   then [HeaderRLP (payload m)] else []),
                UnclesRlp := UnclesRlp (response m) @ us\<rparr>\<rparr>
           \<and> map (EncodeToBytes L)
                 (if \<not> headerFilter.Off (HeaderFilter (streamFilters m)) \<and>
                     checkRange (headerFilter.StartingBlock (HeaderFilter (streamFilters m)))
                       (headerFilter.EndingBlock (HeaderFilter (streamFilters m)))
                       (Int64 (BlockNumber (payload m))) \<and>
                     headerFilter.Uncles (HeaderFilter (streamFilters m))
                  then blockBody.Uncles (BlockBody (payload m)) else [])
               = map Inr us"
proof (cases "\<not> headerFilter.Off (HeaderFilter (streamFilters m)) \<and>
                      checkRange (headerFilter.StartingBlock (HeaderFilter (streamFilters m)))
                        (headerFilter.EndingBlock (HeaderFilter (streamFilters m)))
                        (Int64 (BlockNumber (payload m)))")
  case False
  with assms show ?thesis
    by (intro exI [of _ "[]"]) (auto simp: filterHeaders_eq Let_def)
next
  case on: True
  show ?thesis
  proof (cases "headerFilter.Uncles (HeaderFilter (streamFilters m))")
    case False
    with on assms show ?thesis
      by (intro exI [of _ "[]"]) (auto simp: filterHeaders_eq Let_def)
  next
    case True
    let ?E = "encodeAll (EncodeToBytes L) (blockBody.Uncles (BlockBody (payload m)))"
    from on True assms have "snd ?E = None" by (simp add: filterHeaders_eq Let_def)
    from encodeAll_None [OF this] on True assms show ?thesis
      by (intro exI [of _ "fst ?E"]) (auto simp: filterHeaders_eq Let_def)
  qed
qed

lemma filterTransactions_success:
  assumes "filterTransactions L m = (m', Returns None)"
  shows "\<exists>bs. m' = m\<lparr>response := (response m)
               \<lparr>TransactionsRlp := TransactionsRlp (response m) @ bs\<rparr>\<rparr>
           \<and> map (TrxEncodeRLP L)
                 (if \<not> trxFilter.Off (TrxFilter (streamFilters m)) \<and>
                     checkRange (trxFilter.StartingBlock (TrxFilter (streamFilters m)))
                       (trxFilter.EndingBlock (TrxFilter (streamFilters m)))
                       (Int64 (BlockNumber (payload m)))
                  then matchedTrxs (streamFilters m) (Transactions (BlockBody (payload m)))
                         (TrxMetaData (payload m))
                  else [])
               = map Inr bs"
proof (cases "\<not> trxFilter.Off (TrxFilter (streamFilters m)) \<and>
                     checkRange (trxFilter.StartingBlock (TrxFilter (streamFilters m)))
                       (trxFilter.EndingBlock (TrxFilter (streamFilters m)))
                       (Int64 (BlockNumber (payload m)))")
  case False
  with assms show ?thesis
    by (intro exI [of _ "[]"]) (auto simp: filterTransactions_eq Let_def)
next
  case True
  let ?E = "encodeAll (TrxEncodeRLP L)
              (matchedTrxs (streamFilters m) (Transactions (BlockBody (payload m)))
                 (TrxMetaData (payload m)))"
  from True assms have "snd ?E = None"
    by (auto simp: filterTransactions_eq Let_def split: option.splits)
  from encodeAll_None [OF this] this True assms show ?thesis
    by (intro exI [of _ "fst ?E"]) (auto simp: filterTransactions_eq Let_def)
qed

lemma filerReceipts_success:
  assumes "filerReceipts L m = (m', Returns None)"
  shows "\<exists>bs. m' = m\<lparr>response := (response m)
               \<lparr>ReceiptsRlp := ReceiptsRlp (response m) @ bs\<rparr>\<rparr>
           \<and> map (ReceiptEncodeRLP L)
                 (if \<not> receiptFilter.Off (ReceiptFilter (streamFilters m)) \<and>
                     checkRange (receiptFilter.StartingBlock (ReceiptFilter (streamFilters m)))
                       (receiptFilter.EndingBlock (ReceiptFilter (streamFilters m)))
                       (Int64 (BlockNumber (payload m)))
                  then matchedReceipts (streamFilters m) (Receipts (payload m))
                         (ReceiptMetaData (payload m))
                  else [])
               = map Inr bs"
proof (cases "\<not> receiptFilter.Off (ReceiptFilter (streamFilters m)) \<and>
                     checkRange (receiptFilter.StartingBlock (ReceiptFilter (streamFilters m)))
                       (receiptFilter.EndingBlock (ReceiptFilter (streamFilters m)))
                       (Int64 (BlockNumber (payload m)))")
  case False
  with assms show ?thesis
    by (intro exI [of _ "[]"]) (auto simp: filerReceipts_eq Let_def)
next
  case True
  let ?E = "encodeAll (ReceiptEncodeRLP L)
              (matchedReceipts (streamFilters m) (Receipts (payload m))
                 (ReceiptMetaData (payload m)))"
  from True assms have "snd ?E = None"
    by (auto simp: filerReceipts_eq Let_def split: option.splits)
  from encodeAll_None [OF this] this True assms show ?thesis
    by (intro exI [of _ "fst ?E"]) (auto simp: filerReceipts_eq Let_def)
qed

lemma ScreenResponse_success_fields:
  assumes "snd (ScreenResponse L f p) = Returned (Some r) None"
  shows "HeadersRlp r =
           (if \<not> headerFilter.Off (HeaderFilter f) \<and>
               checkRange (headerFilter.StartingBlock (HeaderFilter f))
                 (headerFilter.EndingBlock (HeaderFilter f)) (Int64 (BlockNumber p))
            then [HeaderRLP p] else [])"
    and "map (EncodeToBytes L)
           (if \<not> headerFilter.Off (HeaderFilter f) \<and>
               checkRange (headerFilter.StartingBlock (HeaderFilter f))
                 (headerFilter.EndingBlock (HeaderFilter f)) (Int64 (BlockNumber p)) \<and>
               headerFilter.Uncles (HeaderFilter f)
            then blockBody.Uncles (BlockBody p) else [])
         = map Inr (UnclesRlp r)"
    and "map (TrxEncodeRLP L)
           (if \<not> trxFilter.Off (TrxFilter f) \<and>
               checkRange (trxFilter.StartingBlock (TrxFilter f))
                 (trxFilter.EndingBlock (TrxFilter f)) (Int64 (BlockNumber p))
            then matchedTrxs f (Transactions (BlockBody p)) (TrxMetaData p) else [])
         = map Inr (TransactionsRlp r)"
    and "map (ReceiptEncodeRLP L)
           (if \<not> receiptFilter.Off (ReceiptFilter f) \<and>
               checkRange (receiptFilter.StartingBlock (ReceiptFilter f))
                 (receiptFilter.EndingBlock (ReceiptFilter f)) (Int64 (BlockNumber p))
            then matchedReceipts f (Receipts p) (ReceiptMetaData p) else [])
         = map Inr (ReceiptsRlp r)"
    and "\<exists>M. StateNodesRlp r = Some M \<and>
           (stateFilter.Off (StateFilter f) \<or>
            \<not> checkRange (stateFilter.StartingBlock (StateFilter f))
                (stateFilter.EndingBlock (StateFilter f)) (Int64 (BlockNumber p))
            \<longrightarrow> M = Map.empty)"
    and "StorageNodesRlp r = None"
proof -
  let ?m0 = "\<lparr>streamFilters = f, response = new_ResponsePayload, payload = p\<rparr>"
  from ScreenResponse_success [OF assms] obtain m1 m2 m3 m4 m5 where
    h: "filterHeaders L ?m0 = (m1, Returns None)"
    and t: "filterTransactions L m1 = (m2, Returns None)"
    and c: "filerReceipts L m2 = (m3, Returns None)"
    and s: "filterState L m3 = (m4, Returns None)"
    and g: "filterStorage L m4 = (m5, Returns None)"
    and r: "r = response m5"
    by blast
  from filterHeaders_success [OF h] obtain us where
    m1: "m1 = ?m0\<lparr>response := (response ?m0)
               \<lparr>HeadersRlp := HeadersRlp (response ?m0) @
                  (if \<not> headerFilter.Off (HeaderFilter f) \<and>
                      checkRange (headerFilter.StartingBlock (HeaderFilter f))
                        (headerFilter.EndingBlock (HeaderFilter f)) (Int64 (BlockNumber p))
                   then [HeaderRLP p] else []),
                UnclesRlp := UnclesRlp (response ?m0) @ us\<rparr>\<rparr>"
    and us: "map (EncodeToBytes L)
           (if \<not> headerFilter.Off (HeaderFilter f) \<and>
               checkRange (headerFilter.StartingBlock (HeaderFilter f))
                 (headerFilter.EndingBlock (HeaderFilter f)) (Int64 (BlockNumber p)) \<and>
               headerFilter.Uncles (HeaderFilter f)
            then blockBody.Uncles (BlockBody p) else []) = map Inr us"
    by (auto cong: if_cong)
  have fp1: "streamFilters m1 = f" "payload m1 = p" by (simp_all add: m1)
  from filterTransactions_success [OF t] obtain ts where
    m2: "m2 = m1\<lparr>response := (response m1)\<lparr>TransactionsRlp := TransactionsRlp (response m1) @ ts\<rparr>\<rparr>"
    and ts: "map (TrxEncodeRLP L)
           (if \<not> trxFilter.Off (TrxFilter f) \<and>
               checkRange (trxFilter.StartingBlock (TrxFilter f))
                 (trxFilter.EndingBlock (TrxFilter f)) (Int64 (BlockNumber p))
            then matchedTrxs f (Transactions (BlockBody p)) (TrxMetaData p) else []) = map Inr ts"
    unfolding fp1 by auto
  have fp2: "streamFilters m2 = f" "payload m2 = p" by (simp_all add: m2 fp1)
  from filerReceipts_success [OF c] obtain rs where
    m3: "m3 = m2\<lparr>response := (response m2)\<lparr>ReceiptsRlp := ReceiptsRlp (response m2) @ rs\<rparr>\<rparr>"
    and rs: "map (ReceiptEncodeRLP L)
           (if \<not> receiptFilter.Off (ReceiptFilter f) \<and>
               checkRange (receiptFilter.StartingBlock (ReceiptFilter f))
                 (receiptFilter.EndingBlock (ReceiptFilter f)) (Int64 (BlockNumber p))
            then matchedReceipts f (Receipts p) (ReceiptMetaData p) else []) = map Inr rs"
    unfolding fp2 by auto
  have fp3: "streamFilters m3 = f" "payload m3 = p" by (simp_all add: m3 fp2)
  from filterState_shape [of L m3] s obtain M where
    m4: "m4 = m3\<lparr>response := (response m3)\<lparr>StateNodesRlp := Some M\<rparr>\<rparr>"
    and M: "stateFilter.Off (StateFilter f) \<or>
            \<not> checkRange (stateFilter.StartingBlock (StateFilter f))
                (stateFilter.EndingBlock (StateFilter f)) (Int64 (BlockNumber p))
            \<longrightarrow> M = Map.empty"
    unfolding fp3 by auto
  have nil: "StorageNodesRlp (response m4) = None"
    by (simp add: m4 m3 m2 m1 new_ResponsePayload_def)
  from filterStorage_nil [OF nil, of L] g have m5: "m5 = m4" by simp
  have resp: "response m5 =
      \<lparr>HeadersRlp = (if \<not> headerFilter.Off (HeaderFilter f) \<and>
                      checkRange (headerFilter.StartingBlock (HeaderFilter f))
                        (headerFilter.EndingBlock (HeaderFilter f)) (Int64 (BlockNumber p))
                   then [HeaderRLP p] else []),
       UnclesRlp = us, TransactionsRlp = ts, ReceiptsRlp = rs,
       StateNodesRlp = Some M, StorageNodesRlp = None\<rparr>"
    by (simp add: m5 m4 m3 m2 m1 new_ResponsePayload_def)
  show "HeadersRlp r =
           (if \<not> headerFilter.Off (HeaderFilter f) \<and>
               checkRange (headerFilter.StartingBlock (HeaderFilter f))
                 (headerFilter.EndingBlock (HeaderFilter f)) (Int64 (BlockNumber p))
            then [HeaderRLP p] else [])"
    by (simp add: r resp)
  show "map (EncodeToBytes L)
           (if \<not> headerFilter.Off (HeaderFilter f) \<and>
               checkRange (headerFilter.StartingBlock (HeaderFilter f))
                 (headerFilter.EndingBlock (HeaderFilter f)) (Int64 (BlockNumber p)) \<and>
               headerFilter.Uncles (HeaderFilter f)
            then blockBody.Uncles (BlockBody p) else [])
         = map Inr (UnclesRlp r)"
    using us by (simp add: r resp)
  show "map (TrxEncodeRLP L)
           (if \<not> trxFilter.Off (TrxFilter f) \<and>
               checkRange (trxFilter.StartingBlock (TrxFilter f))
                 (trxFilter.EndingBlock (TrxFilter f)) (Int64 (BlockNumber p))
            then matchedTrxs f (Transactions (BlockBody p)) (TrxMetaData p) else [])
         = map Inr (TransactionsRlp r)"
    using ts by (simp add: r resp)
  show "map (ReceiptEncodeRLP L)
           (if \<not> receiptFilter.Off (ReceiptFilter f) \<and>
               checkRange (receiptFilter.StartingBlock (ReceiptFilter f))
                 (receiptFilter.EndingBlock (ReceiptFilter f)) (Int64 (BlockNumber p))
            then matchedReceipts f (Receipts p) (ReceiptMetaData p) else [])
         = map Inr (ReceiptsRlp r)"
    using rs by (simp add: r resp)
  show "\<exists>M. StateNodesRlp r = Some M \<and>
           (stateFilter.Off (StateFilter f) \<or>
            \<not> checkRange (stateFilter.StartingBlock (StateFilter f))
                (stateFilter.EndingBlock (StateFilter f)) (Int64 (BlockNumber p))
            \<longrightarrow> M = Map.empty)"
    using M by (simp add: r resp)
  show "StorageNodesRlp r = None"
    by (simp add: r resp)
qed

section \<open>The transaction, receipt and state passes\<close>

lemmas example_defs =
  exampleLib_def exampleFilters_def exampleStorageFilters_def exampleOffFilters_def
  exampleOnlyStorageFilters_def exampleBlock_def exampleMem_def new_ResponsePayload_def

lemmas eval_defs =
  ScreenResponse_def filterHeaders_def filterTransactions_def filerReceipts_def
  filterState_def filterStorage_def checkRange_def Int64_def word_sle_eq
  checkTransactions_def checkReceipts_def checkNodeKeys_def mapassign_def

lemma matchedTrxs_policy:
  "matchedTrxs f trxs mds =
     map fst (filter (\<lambda>(trx, md).
         (trxFilter.Src (TrxFilter f) = [] \<and> trxFilter.Dst (TrxFilter f) = [])
         \<or> trxMetaData.Src md \<in> set (trxFilter.Src (TrxFilter f))
         \<or> trxMetaData.Dst md \<in> set (trxFilter.Dst (TrxFilter f)))
       (zip trxs mds))"
  by (simp add: matchedTrxs_def checkTransactions_iff)

lemma matchedReceipts_policy:
  "matchedReceipts f receipts mds =
     map fst (filter (\<lambda>(receipt, md).
         receiptFilter.Topic0s (ReceiptFilter f) = []
         \<or> set (receiptFilter.Topic0s (ReceiptFilter f)) \<inter> set (receiptMetaData.Topic0s md) \<noteq> {})
       (zip receipts mds))"
  by (simp add: matchedReceipts_def checkReceipts_iff)

text \<open>
  Claim C3. \<open>checkTransactions\<close> accepts a transaction exactly when both wanted lists are
  empty, or its source is among the wanted sources, or its destination is among the wanted
  destinations. In an enabled, in-range transaction pass the bytes appended to
  \<open>TransactionsRlp\<close> are the encodings, in order, of the transactions accepted on their
  metadata, and of no other: all of them when the pass returns nil; those before the first
  one whose encoding fails when the pass returns that error. (The pass panics only when
  the metadata are fewer than the transactions.)
\<close>

theorem filterTransactions_matching:
  assumes "\<not> trxFilter.Off (TrxFilter (streamFilters m))"
    and "checkRange (trxFilter.StartingBlock (TrxFilter (streamFilters m)))
           (trxFilter.EndingBlock (TrxFilter (streamFilters m))) (Int64 (BlockNumber (payload m)))"
  shows "(checkTransactions wantedSrc wantedDst actualSrc actualDst \<longleftrightarrow>
            (wantedSrc = [] \<and> wantedDst = [])
            \<or> actualSrc \<in> set wantedSrc \<or> actualDst \<in> set wantedDst)
    \<and> (let matched = map fst (filter (\<lambda>(trx, md).
                (trxFilter.Src (TrxFilter (streamFilters m)) = [] \<and>
                 trxFilter.Dst (TrxFilter (streamFilters m)) = [])
                \<or> trxMetaData.Src md \<in> set (trxFilter.Src (TrxFilter (streamFilters m)))
                \<or> trxMetaData.Dst md \<in> set (trxFilter.Dst (TrxFilter (streamFilters m))))
              (zip (Transactions (BlockBody (payload m))) (TrxMetaData (payload m))))
        in \<exists>bs. TransactionsRlp (response (fst (filterTransactions L m))) =
                   TransactionsRlp (response m) @ bs
             \<and> (case snd (filterTransactions L m) of
                  Returns None \<Rightarrow> map (TrxEncodeRLP L) matched = map Inr bs
                | Returns (Some err) \<Rightarrow>
                    (\<exists>k < length matched. map (TrxEncodeRLP L) (take k matched) = map Inr bs
                        \<and> TrxEncodeRLP L (matched ! k) = Inl err)
                | Panics p \<Rightarrow>
                    p = IndexOutOfRange
                    \<and> length (TrxMetaData (payload m)) < length (Transactions (BlockBody (payload m)))
                    \<and> map (TrxEncodeRLP L) matched = map Inr bs))"
proof -
  let ?matched = "matchedTrxs (streamFilters m) (Transactions (BlockBody (payload m)))
                   (TrxMetaData (payload m))"
  let ?E = "encodeAll (TrxEncodeRLP L) ?matched"
  have eq: "filterTransactions L m =
     (m\<lparr>response := (response m)\<lparr>TransactionsRlp := TransactionsRlp (response m) @ fst ?E\<rparr>\<rparr>,
          case snd ?E of
            Some err \<Rightarrow> Returns (Some err)
          | None \<Rightarrow> if length (Transactions (BlockBody (payload m))) \<le> length (TrxMetaData (payload m))
                    then Returns None else Panics IndexOutOfRange)"
    using assms by (simp add: filterTransactions_eq Let_def)
  have "case snd (filterTransactions L m) of
                  Returns None \<Rightarrow> map (TrxEncodeRLP L) ?matched = map Inr (fst ?E)
                | Returns (Some err) \<Rightarrow>
                    (\<exists>k < length ?matched. map (TrxEncodeRLP L) (take k ?matched) = map Inr (fst ?E)
                        \<and> TrxEncodeRLP L (?matched ! k) = Inl err)
                | Panics p \<Rightarrow>
                    p = IndexOutOfRange
                    \<and> length (TrxMetaData (payload m)) < length (Transactions (BlockBody (payload m)))
                    \<and> map (TrxEncodeRLP L) ?matched = map Inr (fst ?E)"
  proof (cases "snd ?E")
    case None
    then show ?thesis
      using encodeAll_None [OF None] by (simp add: eq)
  next
    case (Some err)
    then show ?thesis
      using encodeAll_Some [OF Some] by (simp add: eq)
  qed
  then show ?thesis
    unfolding Let_def matchedTrxs_policy [symmetric]
    by (intro conjI exI [of _ "fst ?E"]) (simp_all add: checkTransactions_iff eq)
qed

theorem filterTransactions_matching_witness:
  "\<not> trxFilter.Off (TrxFilter (streamFilters exampleMem))
   \<and> checkRange (trxFilter.StartingBlock (TrxFilter (streamFilters exampleMem)))
       (trxFilter.EndingBlock (TrxFilter (streamFilters exampleMem)))
       (Int64 (BlockNumber (payload exampleMem)))
   \<and> filterTransactions exampleLib exampleMem =
       (exampleMem\<lparr>response := new_ResponsePayload\<lparr>TransactionsRlp := [[1], [3]]\<rparr>\<rparr>, Returns None)
   \<and> checkTransactions [''0xA''] [''0xB''] ''0xA'' ''0xC''
   \<and> checkTransactions [''0xA''] [''0xB''] ''0xZ'' ''0xB''
   \<and> \<not> checkTransactions [''0xA''] [''0xB''] ''0xZ'' ''0xC''"
proof -
  have on: "\<not> trxFilter.Off (TrxFilter (streamFilters exampleMem))"
    by (simp add: example_defs)
  have rng: "checkRange (trxFilter.StartingBlock (TrxFilter (streamFilters exampleMem)))
       (trxFilter.EndingBlock (TrxFilter (streamFilters exampleMem)))
       (Int64 (BlockNumber (payload exampleMem)))"
    by (simp add: example_defs eval_defs)
  show ?thesis
    using on rng
      filterTransactions_matching [OF on rng, of "[''0xA'']" "[''0xB'']" "''0xZ''" "''0xC''" exampleLib]
    by (simp add: example_defs eval_defs)
qed

text \<open>
  Claim C4. \<open>checkReceipts\<close> accepts a receipt exactly when the wanted topics are empty or
  one of them is among the receipt's topics. In an enabled, in-range receipt pass the bytes
  appended to \<open>ReceiptsRlp\<close> are the encodings, in order, of the receipts accepted on their
  metadata, and of no other: all of them when the pass returns nil; those before the first
  one whose encoding fails when the pass returns that error. (The pass panics only when
  the metadata are fewer than the receipts.)
\<close>

theorem filerReceipts_matching:
  assumes "\<not> receiptFilter.Off (ReceiptFilter (streamFilters m))"
    and "checkRange (receiptFilter.StartingBlock (ReceiptFilter (streamFilters m)))
           (receiptFilter.EndingBlock (ReceiptFilter (streamFilters m)))
           (Int64 (BlockNumber (payload m)))"
  shows "(checkReceipts wantedTopics actualTopics \<longleftrightarrow>
            wantedTopics = [] \<or> set wantedTopics \<inter> set actualTopics \<noteq> {})
    \<and> (let matched = map fst (filter (\<lambda>(receipt, md).
                receiptFilter.Topic0s (ReceiptFilter (streamFilters m)) = []
                \<or> set (receiptFilter.Topic0s (ReceiptFilter (streamFilters m)))
                     \<inter> set (receiptMetaData.Topic0s md) \<noteq> {})
              (zip (Receipts (payload m)) (ReceiptMetaData (payload m))))
        in \<exists>bs. ReceiptsRlp (response (fst (filerReceipts L m))) = ReceiptsRlp (response m) @ bs
             \<and> (case snd (filerReceipts L m) of
                  Returns None \<Rightarrow> map (ReceiptEncodeRLP L) matched = map Inr bs
                | Returns (Some err) \<Rightarrow>
                    (\<exists>k < length matched. map (ReceiptEncodeRLP L) (take k matched) = map Inr bs
                        \<and> ReceiptEncodeRLP L (matched ! k) = Inl err)
                | Panics p \<Rightarrow>
                    p = IndexOutOfRange
                    \<and> length (ReceiptMetaData (payload m)) < length (Receipts (payload m))
                    \<and> map (ReceiptEncodeRLP L) matched = map Inr bs))"
proof -
  let ?matched = "matchedReceipts (streamFilters m) (Receipts (payload m))
                    (ReceiptMetaData (payload m))"
  let ?E = "encodeAll (ReceiptEncodeRLP L) ?matched"
  have eq: "filerReceipts L m =
     (m\<lparr>response := (response m)\<lparr>ReceiptsRlp := ReceiptsRlp (response m) @ fst ?E\<rparr>\<rparr>,
          case snd ?E of
            Some err \<Rightarrow> Returns (Some err)
          | None \<Rightarrow> if length (Receipts (payload m)) \<le> length (ReceiptMetaData (payload m))
                    then Returns None else Panics IndexOutOfRange)"
    using assms by (simp add: filerReceipts_eq Let_def)
  have "case snd (filerReceipts L m) of
                  Returns None \<Rightarrow> map (ReceiptEncodeRLP L) ?matched = map Inr (fst ?E)
                | Returns (Some err) \<Rightarrow>
                    (\<exists>k < length ?matched.
                        map (ReceiptEncodeRLP L) (take k ?matched) = map Inr (fst ?E)
                        \<and> ReceiptEncodeRLP L (?matched ! k) = Inl err)
                | Panics p \<Rightarrow>
                    p = IndexOutOfRange
                    \<and> length (ReceiptMetaData (payload m)) < length (Receipts (payload m))
                    \<and> map (ReceiptEncodeRLP L) ?matched = map Inr (fst ?E)"
  proof (cases "snd ?E")
    case None
    then show ?thesis
      using encodeAll_None [OF None] by (simp add: eq)
  next
    case (Some err)
    then show ?thesis
      using encodeAll_Some [OF Some] by (simp add: eq)
  qed
  then show ?thesis
    unfolding Let_def matchedReceipts_policy [symmetric]
    by (intro conjI exI [of _ "fst ?E"]) (simp_all add: checkReceipts_iff eq)
qed

theorem filerReceipts_matching_witness:
  "\<not> receiptFilter.Off (ReceiptFilter (streamFilters exampleMem))
   \<and> checkRange (receiptFilter.StartingBlock (ReceiptFilter (streamFilters exampleMem)))
       (receiptFilter.EndingBlock (ReceiptFilter (streamFilters exampleMem)))
       (Int64 (BlockNumber (payload exampleMem)))
   \<and> filerReceipts exampleLib exampleMem =
       (exampleMem\<lparr>response := new_ResponsePayload\<lparr>ReceiptsRlp := [[2]]\<rparr>\<rparr>, Returns None)
   \<and> checkReceipts [''0x1'', ''0x2''] [''0x2'', ''0x9'']
   \<and> \<not> checkReceipts [''0x1'', ''0x2''] [''0x3'']"
proof -
  have on: "\<not> receiptFilter.Off (ReceiptFilter (streamFilters exampleMem))"
    by (simp add: example_defs)
  have rng: "checkRange (receiptFilter.StartingBlock (ReceiptFilter (streamFilters exampleMem)))
       (receiptFilter.EndingBlock (ReceiptFilter (streamFilters exampleMem)))
       (Int64 (BlockNumber (payload exampleMem)))"
    by (simp add: example_defs eval_defs)
  show ?thesis
    using on rng
      filerReceipts_matching [OF on rng, of "[''0x1'', ''0x2'']" "[''0x3'']" exampleLib]
    by (simp add: example_defs eval_defs)
qed

text \<open>
  Claim C6. In an enabled, in-range state pass, take a state node of the payload whose key
  \<open>checkNodeKeys\<close> accepts against the keys derived from the filter's addresses (no
  address: every key is accepted). The pass returns nil and leaves a state-node map that
  holds the node's value under the node's key when the node is a leaf or
  \<open>IntermediateNodes\<close> is set, and holds nothing under that key otherwise.
\<close>

theorem filterState_leaf_or_intermediate:
  assumes "\<not> stateFilter.Off (StateFilter (streamFilters m))"
    and "checkRange (stateFilter.StartingBlock (StateFilter (streamFilters m)))
           (stateFilter.EndingBlock (StateFilter (streamFilters m)))
           (Int64 (BlockNumber (payload m)))"
    and "distinct (map fst (StateNodes (payload m)))"
    and "(key, node) \<in> set (StateNodes (payload m))"
    and "checkNodeKeys
           (map (\<lambda>addr. AddressToKey L (HexToAddress L addr))
              (stateFilter.Addresses (StateFilter (streamFilters m)))) key"
  shows "(checkNodeKeys wantedKeys actualKey \<longleftrightarrow>
            wantedKeys = [] \<or> actualKey \<in> set wantedKeys)
    \<and> snd (filterState L m) = Returns None
    \<and> (\<exists>M. StateNodesRlp (response (fst (filterState L m))) = Some M
           \<and> M key = (if Leaf node \<or> IntermediateNodes (StateFilter (streamFilters m))
                      then Some (StateNode.Value node) else None))"
proof -
  let ?m1 = "m\<lparr>response := (response m)\<lparr>StateNodesRlp := Some Map.empty\<rparr>\<rparr>"
  let ?kf = "map (\<lambda>addr. AddressToKey L (HexToAddress L addr))
               (stateFilter.Addresses (StateFilter (streamFilters m)))"
  have init: "StateNodesRlp (response ?m1) = Some Map.empty" by simp
  from filterState_loop_shape [OF init, of ?kf "StateNodes (payload m)"]
  obtain M where loop: "filterState_loop ?kf (StateNodes (payload m)) ?m1 =
      (m\<lparr>response := (response m)\<lparr>StateNodesRlp := Some M\<rparr>\<rparr>, None)"
    by auto
  with assms(1,2) have run: "filterState L m =
      (m\<lparr>response := (response m)\<lparr>StateNodesRlp := Some M\<rparr>\<rparr>, Returns None)"
    by (simp add: filterState_def)
  from loop have "StateNodesRlp (response (fst (filterState_loop ?kf (StateNodes (payload m)) ?m1)))
      = Some M"
    by simp
  from filterState_loop_lookup [OF init assms(3) this, of key]
  have look: "M key = (case map_of (StateNodes (payload m)) key of
             Some node \<Rightarrow>
               if checkNodeKeys ?kf key \<and>
                  (Leaf node \<or> IntermediateNodes (StateFilter (streamFilters ?m1)))
               then Some (StateNode.Value node) else Map.empty key
           | None \<Rightarrow> Map.empty key)" .
  from assms(3,4) have "map_of (StateNodes (payload m)) key = Some node"
    by simp
  with look assms(5)
  have "M key = (if Leaf node \<or> IntermediateNodes (StateFilter (streamFilters m))
                      then Some (StateNode.Value node) else None)"
    by simp
  with run show ?thesis
    by (simp add: checkNodeKeys_iff)
qed

theorem filterState_leaf_or_intermediate_witness:
  "\<not> stateFilter.Off (StateFilter (streamFilters exampleMem))
   \<and> checkRange (stateFilter.StartingBlock (StateFilter (streamFilters exampleMem)))
         (stateFilter.EndingBlock (StateFilter (streamFilters exampleMem)))
         (Int64 (BlockNumber (payload exampleMem)))
   \<and> distinct (map fst (StateNodes (payload exampleMem)))
   \<and> (10, \<lparr>Leaf = True, Value = [1]\<rparr>) \<in> set (StateNodes (payload exampleMem))
   \<and> (20, \<lparr>Leaf = False, Value = [2]\<rparr>) \<in> set (StateNodes (payload exampleMem))
   \<and> checkNodeKeys
         (map (\<lambda>addr. AddressToKey exampleLib (HexToAddress exampleLib addr))
            (stateFilter.Addresses (StateFilter (streamFilters exampleMem)))) 10
   \<and> checkNodeKeys
         (map (\<lambda>addr. AddressToKey exampleLib (HexToAddress exampleLib addr))
            (stateFilter.Addresses (StateFilter (streamFilters exampleMem)))) 20
   \<and> filterState exampleLib exampleMem =
     (exampleMem\<lparr>response := new_ResponsePayload\<lparr>StateNodesRlp := Some [10 \<mapsto> [1]]\<rparr>\<rparr>,
      Returns None)
   \<and> (\<exists>M. StateNodesRlp (response (fst (filterState exampleLib exampleMem))) = Some M
         \<and> M 10 = Some [1] \<and> M 20 = None)"
proof -
  have on: "\<not> stateFilter.Off (StateFilter (streamFilters exampleMem))"
    by (simp add: example_defs)
  have rng: "checkRange (stateFilter.StartingBlock (StateFilter (streamFilters exampleMem)))
           (stateFilter.EndingBlock (StateFilter (streamFilters exampleMem)))
           (Int64 (BlockNumber (payload exampleMem)))"
    by (simp add: example_defs eval_defs)
  have dist: "distinct (map fst (StateNodes (payload exampleMem)))"
    by (simp add: example_defs)
  have leaf: "(10, \<lparr>Leaf = True, Value = [1]\<rparr>) \<in> set (StateNodes (payload exampleMem))"
    by (simp add: example_defs)
  have inter: "(20, \<lparr>Leaf = False, Value = [2]\<rparr>) \<in> set (StateNodes (payload exampleMem))"
    by (simp add: example_defs)
  have k10: "checkNodeKeys
           (map (\<lambda>addr. AddressToKey exampleLib (HexToAddress exampleLib addr))
              (stateFilter.Addresses (StateFilter (streamFilters exampleMem)))) 10"
    by (simp add: example_defs eval_defs)
  have k20: "checkNodeKeys
           (map (\<lambda>addr. AddressToKey exampleLib (HexToAddress exampleLib addr))
              (stateFilter.Addresses (StateFilter (streamFilters exampleMem)))) 20"
    by (simp add: example_defs eval_defs)
  show ?thesis
    using on rng dist leaf inter k10 k20
      filterState_leaf_or_intermediate [OF on rng dist leaf k10]
      filterState_leaf_or_intermediate [OF on rng dist inter k20]
    by (simp add: example_defs eval_defs)
qed

section \<open>The arguments of the call\<close>

lemma filterHeaders_frame:
  "filterHeaders L m = (m', c) \<Longrightarrow> streamFilters m' = streamFilters m \<and> payload m' = payload m"
  by (auto simp: filterHeaders_eq Let_def split: if_splits)

lemma filterTransactions_frame:
  "filterTransactions L m = (m', c) \<Longrightarrow> streamFilters m' = streamFilters m \<and> payload m' = payload m"
  by (auto simp: filterTransactions_eq Let_def split: if_splits)

lemma filerReceipts_frame:
  "filerReceipts L m = (m', c) \<Longrightarrow> streamFilters m' = streamFilters m \<and> payload m' = payload m"
  by (auto simp: filerReceipts_eq Let_def split: if_splits)

lemma filterState_frame:
  "filterState L m = (m', c) \<Longrightarrow> streamFilters m' = streamFilters m \<and> payload m' = payload m"
  using filterState_shape [of L m] by auto

lemma filterStorage_frame':
  "filterStorage L m = (m', c) \<Longrightarrow> streamFilters m' = streamFilters m \<and> payload m' = payload m"
  using filterStorage_frame [of L m m' c] by auto

text \<open>
  Claim C8. The memory after a call of \<open>ScreenResponse\<close> holds the filters and the payload
  it was called with, however the call ends: no pass assigns into either of them.
\<close>

theorem ScreenResponse_frame:
  "streamFilters (fst (ScreenResponse L f p)) = f \<and> payload (fst (ScreenResponse L f p)) = p"
proof -
  let ?m0 = "\<lparr>streamFilters = f, response = new_ResponsePayload, payload = p\<rparr>"
  obtain m1 c1 where h: "filterHeaders L ?m0 = (m1, c1)" by (cases "filterHeaders L ?m0")
  obtain m2 c2 where t: "filterTransactions L m1 = (m2, c2)" by (cases "filterTransactions L m1")
  obtain m3 c3 where r: "filerReceipts L m2 = (m3, c3)" by (cases "filerReceipts L m2")
  obtain m4 c4 where s: "filterState L m3 = (m4, c4)" by (cases "filterState L m3")
  obtain m5 c5 where g: "filterStorage L m4 = (m5, c5)" by (cases "filterStorage L m4")
  from filterHeaders_frame [OF h] have 1: "streamFilters m1 = f \<and> payload m1 = p" by simp
  with filterTransactions_frame [OF t] have 2: "streamFilters m2 = f \<and> payload m2 = p" by simp
  with filerReceipts_frame [OF r] have 3: "streamFilters m3 = f \<and> payload m3 = p" by simp
  with filterState_frame [OF s] have 4: "streamFilters m4 = f \<and> payload m4 = p" by simp
  with filterStorage_frame' [OF g] have 5: "streamFilters m5 = f \<and> payload m5 = p" by simp
  show ?thesis
  proof (cases "c1 = Returns None")
    case False
    with h have "fst (ScreenResponse L f p) = m1"
      by (cases c1) (auto simp: ScreenResponse_def)
    with 1 show ?thesis by simp
  next
    case c1: True
    show ?thesis
    proof (cases "c2 = Returns None")
      case False
      with h c1 t have "fst (ScreenResponse L f p) = m2"
        by (cases c2) (auto simp: ScreenResponse_def)
      with 2 show ?thesis by simp
    next
      case c2: True
      show ?thesis
      proof (cases "c3 = Returns None")
        case False
        with h c1 t c2 r have "fst (ScreenResponse L f p) = m3"
          by (cases c3) (auto simp: ScreenResponse_def)
        with 3 show ?thesis by simp
      next
        case c3: True
        show ?thesis
        proof (cases "c4 = Returns None")
          case False
          with h c1 t c2 r c3 s have "fst (ScreenResponse L f p) = m4"
            by (cases c4) (auto simp: ScreenResponse_def)
          with 4 show ?thesis by simp
        next
          case c4: True
          with h c1 t c2 r c3 s g have "fst (ScreenResponse L f p) = m5"
            by (cases c5) (auto simp: ScreenResponse_def split: option.splits)
          with 5 show ?thesis by simp
        qed
      qed
    qed
  qed
qed

section \<open>Panics\<close>

lemma filterHeaders_no_panic: "snd (filterHeaders L m) \<noteq> Panics q"
  by (simp add: filterHeaders_eq Let_def)

lemma filterState_no_panic: "snd (filterState L m) \<noteq> Panics q"
  using filterState_shape [of L m] by auto

lemma filterStorage_inner_panic:
  "filterStorage_inner stkf stateKey ns m = (m', Some q) \<Longrightarrow> q = NilMapAssignment"
proof (induction ns arbitrary: m)
  case Nil
  then show ?case by simp
next
  case (Cons n ns)
  then show ?case
    by (auto simp: mapassign2_def mapassign_def split: if_splits sum.splits option.splits)
qed

lemma filterStorage_loop_panic:
  "filterStorage_loop skf stkf es m = (m', Some q) \<Longrightarrow> q = NilMapAssignment"
proof (induction es arbitrary: m)
  case Nil
  then show ?case by simp
next
  case (Cons e es)
  obtain stateKey ns where e: "e = (stateKey, ns)" by (cases e)
  from Cons.prems Cons.IH e show ?case
    by (auto simp: mapassign_def split: if_splits option.splits prod.splits
             dest: filterStorage_inner_panic)
qed

lemma filterStorage_panic:
  "filterStorage L m = (m', Panics q) \<Longrightarrow> q = NilMapAssignment"
  by (auto simp: filterStorage_def Let_def split: if_splits prod.splits option.splits
           dest: filterStorage_loop_panic)

lemma ScreenResponse_Panicked:
  assumes "snd (ScreenResponse L f p) = Panicked q"
  shows "\<exists>m m'. streamFilters m = f \<and> payload m = p \<and>
           (filterTransactions L m = (m', Panics q) \<or> filerReceipts L m = (m', Panics q)
            \<or> filterStorage L m = (m', Panics q))"
proof -
  let ?m0 = "\<lparr>streamFilters = f, response = new_ResponsePayload, payload = p\<rparr>"
  obtain m1 c1 where h: "filterHeaders L ?m0 = (m1, c1)" by (cases "filterHeaders L ?m0")
  obtain m2 c2 where t: "filterTransactions L m1 = (m2, c2)" by (cases "filterTransactions L m1")
  obtain m3 c3 where r: "filerReceipts L m2 = (m3, c3)" by (cases "filerReceipts L m2")
  obtain m4 c4 where s: "filterState L m3 = (m4, c4)" by (cases "filterState L m3")
  obtain m5 c5 where g: "filterStorage L m4 = (m5, c5)" by (cases "filterStorage L m4")
  from filterHeaders_frame [OF h] have 1: "streamFilters m1 = f \<and> payload m1 = p" by simp
  with filterTransactions_frame [OF t] have 2: "streamFilters m2 = f \<and> payload m2 = p" by simp
  with filerReceipts_frame [OF r] have 3: "streamFilters m3 = f \<and> payload m3 = p" by simp
  with filterState_frame [OF s] have 4: "streamFilters m4 = f \<and> payload m4 = p" by simp
  from h filterHeaders_no_panic [of L ?m0] have n1: "\<And>x. c1 \<noteq> Panics x" by auto
  from s filterState_no_panic [of L m3] have n4: "\<And>x. c4 \<noteq> Panics x" by auto
  show ?thesis
  proof (cases "c1 = Returns None")
    case False
    with h n1 assms show ?thesis
      by (cases c1) (auto simp: ScreenResponse_def)
  next
    case c1: True
    show ?thesis
    proof (cases "c2 = Returns None")
      case False
      with h c1 t assms have "c2 = Panics q"
        by (cases c2) (auto simp: ScreenResponse_def)
      with t 1 show ?thesis by blast
    next
      case c2: True
      show ?thesis
      proof (cases "c3 = Returns None")
        case False
        with h c1 t c2 r assms have "c3 = Panics q"
          by (cases c3) (auto simp: ScreenResponse_def)
        with r 2 show ?thesis by blast
      next
        case c3: True
        show ?thesis
        proof (cases "c4 = Returns None")
          case False
          with h c1 t c2 r c3 s n4 assms show ?thesis
            by (cases c4) (auto simp: ScreenResponse_def)
        next
          case c4: True
          with h c1 t c2 r c3 s g assms have "c5 = Panics q"
            by (cases c5) (auto simp: ScreenResponse_def split: option.splits)
          with g 4 show ?thesis by blast
        qed
      qed
    qed
  qed
qed

text \<open>
  Claim C9. When the payload has as many transaction metadata as transactions and as many
  receipt metadata as receipts, no read of \<open>TrxMetaData[i]\<close> or \<open>ReceiptMetaData[i]\<close> is out
  of range: neither loop, neither pass and no call of \<open>ScreenResponse\<close> on that payload
  ends in the index panic.
\<close>

theorem metadata_index_in_bounds:
  assumes "length (TrxMetaData (payload m)) = length (Transactions (BlockBody (payload m)))"
    and "length (ReceiptMetaData (payload m)) = length (Receipts (payload m))"
  shows "snd (filterTransactions_loop L 0 (Transactions (BlockBody (payload m))) m)
           \<noteq> Panics IndexOutOfRange
       \<and> snd (filerReceipts_loop L 0 (Receipts (payload m)) m) \<noteq> Panics IndexOutOfRange
       \<and> snd (filterTransactions L m) \<noteq> Panics IndexOutOfRange
       \<and> snd (filerReceipts L m) \<noteq> Panics IndexOutOfRange
       \<and> snd (ScreenResponse L f (payload m)) \<noteq> Panicked IndexOutOfRange"
proof -
  have trx: "snd (filterTransactions L m') \<noteq> Panics IndexOutOfRange"
    if "payload m' = payload m" for m' :: "('a, 'b, 'c) mem"
    using that assms(1) by (simp add: filterTransactions_eq Let_def split: option.splits)
  have rct: "snd (filerReceipts L m') \<noteq> Panics IndexOutOfRange"
    if "payload m' = payload m" for m' :: "('a, 'b, 'c) mem"
    using that assms(2) by (simp add: filerReceipts_eq Let_def split: option.splits)
  have "snd (ScreenResponse L f (payload m)) \<noteq> Panicked IndexOutOfRange"
  proof
    assume "snd (ScreenResponse L f (payload m)) = Panicked IndexOutOfRange"
    from ScreenResponse_Panicked [OF this] obtain m1 m' where
      p: "payload m1 = payload m"
      and c: "filterTransactions L m1 = (m', Panics IndexOutOfRange)
              \<or> filerReceipts L m1 = (m', Panics IndexOutOfRange)
              \<or> filterStorage L m1 = (m', Panics IndexOutOfRange)"
      by blast
    with trx [OF p] rct [OF p] show False
      by (auto dest: filterStorage_panic)
  qed
  moreover have "snd (filterTransactions_loop L 0 (Transactions (BlockBody (payload m))) m)
           \<noteq> Panics IndexOutOfRange"
    using assms(1) by (simp add: filterTransactions_loop_eq Let_def split: option.splits)
  moreover have "snd (filerReceipts_loop L 0 (Receipts (payload m)) m) \<noteq> Panics IndexOutOfRange"
    using assms(2) by (simp add: filerReceipts_loop_eq Let_def split: option.splits)
  ultimately show ?thesis
    using trx [of m] rct [of m] by simp
qed

theorem metadata_index_in_bounds_witness:
  "length (TrxMetaData (payload exampleMem)) = length (Transactions (BlockBody (payload exampleMem)))
   \<and> length (ReceiptMetaData (payload exampleMem)) = length (Receipts (payload exampleMem))
   \<and> snd (filterTransactions exampleLib exampleMem) \<noteq> Panics IndexOutOfRange
   \<and> snd (filerReceipts exampleLib exampleMem) \<noteq> Panics IndexOutOfRange
   \<and> snd (ScreenResponse exampleLib exampleStorageFilters (payload exampleMem))
        \<noteq> Panicked IndexOutOfRange"
proof -
  have t: "length (TrxMetaData (payload exampleMem)) =
           length (Transactions (BlockBody (payload exampleMem)))"
    by (simp add: example_defs)
  have r: "length (ReceiptMetaData (payload exampleMem)) = length (Receipts (payload exampleMem))"
    by (simp add: example_defs)
  show ?thesis
    using t r metadata_index_in_bounds [OF t r, of exampleLib exampleStorageFilters]
    by simp
qed

section \<open>The response of a call that returns one\<close>

text \<open>
  Claim C5. In the response of a call that returns one, a category whose filter is off is
  empty: no header and no uncle, no transaction, no receipt, a state-node map that is
  allocated and empty, and a storage-node map that is nil. The state-node map of a returned
  response is never nil, and it is empty also when the block is out of the state filter's
  range.
\<close>

theorem ScreenResponse_off_empty:
  assumes "snd (ScreenResponse L f p) = Returned (Some r) None"
  shows "(headerFilter.Off (HeaderFilter f) \<longrightarrow> HeadersRlp r = [] \<and> UnclesRlp r = [])
       \<and> (trxFilter.Off (TrxFilter f) \<longrightarrow> TransactionsRlp r = [])
       \<and> (receiptFilter.Off (ReceiptFilter f) \<longrightarrow> ReceiptsRlp r = [])
       \<and> (stateFilter.Off (StateFilter f) \<longrightarrow> StateNodesRlp r = Some Map.empty)
       \<and> (storageFilter.Off (StorageFilter f) \<longrightarrow> StorageNodesRlp r = None)
       \<and> StateNodesRlp r \<noteq> None
       \<and> (\<not> checkRange (stateFilter.StartingBlock (StateFilter f))
               (stateFilter.EndingBlock (StateFilter f)) (Int64 (BlockNumber p))
            \<longrightarrow> StateNodesRlp r = Some Map.empty)"
proof -
  note F = ScreenResponse_success_fields [OF assms]
  have "headerFilter.Off (HeaderFilter f) \<longrightarrow> HeadersRlp r = [] \<and> UnclesRlp r = []"
    using F(1,2) by auto
  moreover have "trxFilter.Off (TrxFilter f) \<longrightarrow> TransactionsRlp r = []"
    using F(3) by auto
  moreover have "receiptFilter.Off (ReceiptFilter f) \<longrightarrow> ReceiptsRlp r = []"
    using F(4) by auto
  moreover have "stateFilter.Off (StateFilter f) \<longrightarrow> StateNodesRlp r = Some Map.empty"
    using F(5) by auto
  moreover have "StateNodesRlp r \<noteq> None"
    using F(5) by auto
  moreover have "\<not> checkRange (stateFilter.StartingBlock (StateFilter f))
               (stateFilter.EndingBlock (StateFilter f)) (Int64 (BlockNumber p))
            \<longrightarrow> StateNodesRlp r = Some Map.empty"
    using F(5) by auto
  ultimately show ?thesis
    using F(6) by simp
qed

theorem ScreenResponse_off_empty_witness:
  "snd (ScreenResponse exampleLib exampleOffFilters exampleBlock) =
     Returned (Some (new_ResponsePayload\<lparr>StateNodesRlp := Some Map.empty\<rparr>)) None
   \<and> headerFilter.Off (HeaderFilter exampleOffFilters)
   \<and> trxFilter.Off (TrxFilter exampleOffFilters)
   \<and> receiptFilter.Off (ReceiptFilter exampleOffFilters)
   \<and> stateFilter.Off (StateFilter exampleOffFilters)
   \<and> storageFilter.Off (StorageFilter exampleOffFilters)
   \<and> \<not> checkRange (stateFilter.StartingBlock (StateFilter exampleOffFilters))
           (stateFilter.EndingBlock (StateFilter exampleOffFilters))
           (Int64 (BlockNumber exampleBlock))
   \<and> HeadersRlp (new_ResponsePayload\<lparr>StateNodesRlp := Some Map.empty\<rparr>) = []
   \<and> StateNodesRlp (new_ResponsePayload\<lparr>StateNodesRlp := Some Map.empty\<rparr>) \<noteq> None"
proof -
  have run: "snd (ScreenResponse exampleLib exampleOffFilters exampleBlock) =
     Returned (Some (new_ResponsePayload\<lparr>StateNodesRlp := Some Map.empty\<rparr>)) None"
    by (simp add: example_defs eval_defs)
  show ?thesis
    using run ScreenResponse_off_empty [OF run]
    by (simp add: example_defs eval_defs)
qed

text \<open>
  Claim C10. In the response of a call that returns one, the transaction list is the list
  of the encodings of the matched transactions in the order of the payload's transaction
  array, the receipt list that of the matched receipts in the order of the payload's
  receipt array, and the uncle list that of the uncles in the order of the payload's uncle
  array (each list empty when its pass is off or out of range, the uncle list also when
  uncles are not asked for).
\<close>

theorem ScreenResponse_order:
  assumes "snd (ScreenResponse L f p) = Returned (Some r) None"
  shows "map (TrxEncodeRLP L)
           (if \<not> trxFilter.Off (TrxFilter f) \<and>
               checkRange (trxFilter.StartingBlock (TrxFilter f))
                 (trxFilter.EndingBlock (TrxFilter f)) (Int64 (BlockNumber p))
            then matchedTrxs f (Transactions (BlockBody p)) (TrxMetaData p) else [])
         = map Inr (TransactionsRlp r)
       \<and> map (ReceiptEncodeRLP L)
           (if \<not> receiptFilter.Off (ReceiptFilter f) \<and>
               checkRange (receiptFilter.StartingBlock (ReceiptFilter f))
                 (receiptFilter.EndingBlock (ReceiptFilter f)) (Int64 (BlockNumber p))
            then matchedReceipts f (Receipts p) (ReceiptMetaData p) else [])
         = map Inr (ReceiptsRlp r)
       \<and> map (EncodeToBytes L)
           (if \<not> headerFilter.Off (HeaderFilter f) \<and>
               checkRange (headerFilter.StartingBlock (HeaderFilter f))
                 (headerFilter.EndingBlock (HeaderFilter f)) (Int64 (BlockNumber p)) \<and>
               headerFilter.Uncles (HeaderFilter f)
            then blockBody.Uncles (BlockBody p) else [])
         = map Inr (UnclesRlp r)"
  using ScreenResponse_success_fields(2,3,4) [OF assms] by (intro conjI)

theorem ScreenResponse_order_witness:
  "snd (ScreenResponse exampleLib exampleFilters exampleBlock) =
     Returned (Some \<lparr>HeadersRlp = [[7]], UnclesRlp = [[1], [2]], TransactionsRlp = [[1], [3]],
       ReceiptsRlp = [[2]], StateNodesRlp = Some [10 \<mapsto> [1]], StorageNodesRlp = None\<rparr>) None
   \<and> matchedTrxs exampleFilters (Transactions (BlockBody exampleBlock)) (TrxMetaData exampleBlock)
       = [1, 3]
   \<and> matchedReceipts exampleFilters (Receipts exampleBlock) (ReceiptMetaData exampleBlock) = [2]
   \<and> map (TrxEncodeRLP exampleLib) [1, 3] = map Inr [[1], [3]]"
proof -
  have run: "snd (ScreenResponse exampleLib exampleFilters exampleBlock) =
     Returned (Some \<lparr>HeadersRlp = [[7]], UnclesRlp = [[1], [2]], TransactionsRlp = [[1], [3]],
       ReceiptsRlp = [[2]], StateNodesRlp = Some [10 \<mapsto> [1]], StorageNodesRlp = None\<rparr>) None"
    by (simp add: example_defs eval_defs)
  show ?thesis
    using run ScreenResponse_order [OF run]
    by (simp add: example_defs eval_defs matchedTrxs_def matchedReceipts_def)
qed

section \<open>The storage pass and the nil map\<close>

text \<open>\<open>ScreenResponse\<close> never allocates \<open>response.StorageNodesRlp\<close>, so the storage pass finds
  it nil and its first assignment panics. A call returns a response only if the storage
  pass is off, or out of range, or no state key of the payload's storage nodes is accepted.\<close>

lemma ScreenResponse_returns_only_without_storage:
  assumes "snd (ScreenResponse L f p) = Returned (Some r) None"
  shows "storageFilter.Off (StorageFilter f)
       \<or> \<not> checkRange (storageFilter.StartingBlock (StorageFilter f))
             (storageFilter.EndingBlock (StorageFilter f)) (Int64 (BlockNumber p))
       \<or> \<not> (\<exists>e \<in> set (StorageNodes p).
               checkNodeKeys (map (\<lambda>addr. AddressToKey L (HexToAddress L addr))
                 (storageFilter.Addresses (StorageFilter f))) (fst e))"
proof -
  let ?m0 = "\<lparr>streamFilters = f, response = new_ResponsePayload, payload = p\<rparr>"
  from ScreenResponse_success [OF assms] obtain m1 m2 m3 m4 m5 where
    h: "filterHeaders L ?m0 = (m1, Returns None)"
    and t: "filterTransactions L m1 = (m2, Returns None)"
    and c: "filerReceipts L m2 = (m3, Returns None)"
    and s: "filterState L m3 = (m4, Returns None)"
    and g: "filterStorage L m4 = (m5, Returns None)"
    by blast
  from filterHeaders_success [OF h] have 1: "StorageNodesRlp (response m1) = None"
    by (auto simp: new_ResponsePayload_def)
  from filterTransactions_success [OF t] 1 have 2: "StorageNodesRlp (response m2) = None"
    by auto
  from filerReceipts_success [OF c] 2 have 3: "StorageNodesRlp (response m3) = None"
    by auto
  from filterState_shape [of L m3] s 3 have 4: "StorageNodesRlp (response m4) = None"
    by auto
  from filterHeaders_frame [OF h] have "streamFilters m1 = f \<and> payload m1 = p" by simp
  with filterTransactions_frame [OF t] have "streamFilters m2 = f \<and> payload m2 = p" by simp
  with filerReceipts_frame [OF c] have "streamFilters m3 = f \<and> payload m3 = p" by simp
  with filterState_frame [OF s] have fp: "streamFilters m4 = f \<and> payload m4 = p" by simp
  from filterStorage_nil [OF 4, of L] g fp show ?thesis
    by (auto split: if_splits)
qed

subsection \<open>The storage pass on an allocated map\<close>

text \<open>Had \<open>response.StorageNodesRlp\<close> been allocated before the storage pass, as
  \<open>filterState\<close> allocates \<open>StateNodesRlp\<close>, the pass would make, for every accepted state
  key, the entry that holds the accepted storage nodes of that account.\<close>

lemma mem_response_idem:
  "StorageNodesRlp (response m) = T \<Longrightarrow>
   m\<lparr>response := (response m)\<lparr>StorageNodesRlp := T\<rparr>\<rparr> = m"
  by auto

lemma filterStorage_inner_allocated:
  "filterStorage_inner stkf stateKey ns
     (m\<lparr>response := (response m)\<lparr>StorageNodesRlp := Some (T(stateKey \<mapsto> Some g))\<rparr>\<rparr>) =
     (m\<lparr>response := (response m)\<lparr>StorageNodesRlp :=
          Some (T(stateKey \<mapsto> Some (fold (\<lambda>n g. if checkNodeKeys stkf (Key n)
                                                  then g(Key n \<mapsto> StorageNode.Value n) else g)
                                         ns g)))\<rparr>\<rparr>,
      None)"
proof (induction ns arbitrary: g)
  case Nil
  show ?case by simp
next
  case (Cons n ns)
  show ?case
  proof (cases "checkNodeKeys stkf (Key n)")
    case False
    with Cons.IH [of g] show ?thesis by simp
  next
    case True
    have "mapassign2 (Some (T(stateKey \<mapsto> Some g))) stateKey (Key n) (StorageNode.Value n) =
          Inr (Some (T(stateKey \<mapsto> Some (g(Key n \<mapsto> StorageNode.Value n)))))"
      by (simp add: mapassign2_def mapaccess_def mapassign_def)
    with True Cons.IH [of "g(Key n \<mapsto> StorageNode.Value n)"] show ?thesis
      by (simp del: fun_upd_apply)
  qed
qed

lemma fold_store_lookup:
  "fold (\<lambda>n g. if P (Key n) then g(Key n \<mapsto> StorageNode.Value n) else g) ns g j =
     (case map_of (rev (map (\<lambda>n. (Key n, StorageNode.Value n)) (filter (\<lambda>n. P (Key n)) ns))) j of
        Some v \<Rightarrow> Some v
      | None \<Rightarrow> g j)"
  by (induction ns arbitrary: g) (auto simp: map_add_def split: option.splits)

lemma filterStorage_loop_allocated:
  assumes "StorageNodesRlp (response m) = Some T" and "distinct (map fst es)"
  shows "\<exists>T'. filterStorage_loop skf stkf es m =
            (m\<lparr>response := (response m)\<lparr>StorageNodesRlp := Some T'\<rparr>\<rparr>, None)
          \<and> (\<forall>k. T' k =
                (case map_of es k of
                   Some ns \<Rightarrow>
                     if checkNodeKeys skf k
                     then Some (Some (fold (\<lambda>n g. if checkNodeKeys stkf (Key n)
                                                  then g(Key n \<mapsto> StorageNode.Value n) else g)
                                        ns Map.empty))
                     else T k
                 | None \<Rightarrow> T k))"
  using assms
proof (induction es arbitrary: m T)
  case Nil
  then show ?case by (intro exI [of _ T]) (simp add: mem_response_idem)
next
  case (Cons e es)
  obtain stateKey ns where e: "e = (stateKey, ns)" by (cases e)
  from Cons.prems(2) e have dist: "distinct (map fst es)" and notin: "map_of es stateKey = None"
    by (auto simp: map_of_eq_None_iff)
  show ?case
  proof (cases "checkNodeKeys skf stateKey")
    case False
    from Cons.IH [OF Cons.prems(1) dist] obtain T' where
      l: "filterStorage_loop skf stkf es m =
            (m\<lparr>response := (response m)\<lparr>StorageNodesRlp := Some T'\<rparr>\<rparr>, None)"
      and T': "\<And>k. T' k =
                (case map_of es k of
                   Some ns \<Rightarrow>
                     if checkNodeKeys skf k
                     then Some (Some (fold (\<lambda>n g. if checkNodeKeys stkf (Key n)
                                                  then g(Key n \<mapsto> StorageNode.Value n) else g)
                                        ns Map.empty))
                     else T k
                 | None \<Rightarrow> T k)"
      by blast
    show ?thesis
    proof (intro exI [of _ T'] conjI allI)
      show "filterStorage_loop skf stkf (e # es) m =
            (m\<lparr>response := (response m)\<lparr>StorageNodesRlp := Some T'\<rparr>\<rparr>, None)"
        using False e l by simp
    next
      fix k
      show "T' k = (case map_of (e # es) k of
                   Some ns \<Rightarrow>
                     if checkNodeKeys skf k
                     then Some (Some (fold (\<lambda>n g. if checkNodeKeys stkf (Key n)
                                                  then g(Key n \<mapsto> StorageNode.Value n) else g)
                                        ns Map.empty))
                     else T k
                 | None \<Rightarrow> T k)"
        using False e notin T' [of k]
        by (cases "k = stateKey") (simp_all split: option.splits)
    qed
  next
    case True
    let ?G = "fold (\<lambda>n g. if checkNodeKeys stkf (Key n)
                          then g(Key n \<mapsto> StorageNode.Value n) else g) ns Map.empty"
    let ?T0 = "T(stateKey \<mapsto> Some Map.empty)"
    let ?T1 = "T(stateKey \<mapsto> Some ?G)"
    let ?m0 = "m\<lparr>response := (response m)\<lparr>StorageNodesRlp := Some ?T0\<rparr>\<rparr>"
    let ?m1 = "m\<lparr>response := (response m)\<lparr>StorageNodesRlp := Some ?T1\<rparr>\<rparr>"
    have inner: "filterStorage_inner stkf stateKey ns ?m0 = (?m1, None)"
      by (rule filterStorage_inner_allocated)
    have "StorageNodesRlp (response ?m1) = Some ?T1" by simp
    from Cons.IH [OF this dist] obtain T' where
      l: "filterStorage_loop skf stkf es ?m1 =
            (m\<lparr>response := (response m)\<lparr>StorageNodesRlp := Some T'\<rparr>\<rparr>, None)"
      and T': "\<And>k. T' k =
                (case map_of es k of
                   Some ns \<Rightarrow>
                     if checkNodeKeys skf k
                     then Some (Some (fold (\<lambda>n g. if checkNodeKeys stkf (Key n)
                                                  then g(Key n \<mapsto> StorageNode.Value n) else g)
                                        ns Map.empty))
                     else ?T1 k
                 | None \<Rightarrow> ?T1 k)"
      by auto
    show ?thesis
    proof (intro exI [of _ T'] conjI allI)
      show "filterStorage_loop skf stkf (e # es) m =
            (m\<lparr>response := (response m)\<lparr>StorageNodesRlp := Some T'\<rparr>\<rparr>, None)"
        using True e l inner Cons.prems(1) by (simp add: mapassign_def)
    next
      fix k
      show "T' k = (case map_of (e # es) k of
                   Some ns \<Rightarrow>
                     if checkNodeKeys skf k
                     then Some (Some (fold (\<lambda>n g. if checkNodeKeys stkf (Key n)
                                                  then g(Key n \<mapsto> StorageNode.Value n) else g)
                                        ns Map.empty))
                     else T k
                 | None \<Rightarrow> T k)"
        using True e notin T' [of k]
        by (cases "k = stateKey") (simp_all split: option.splits)
    qed
  qed
qed

lemma filterStorage_on_allocated_map:
  assumes "StorageNodesRlp (response m) = Some T"
    and "\<not> storageFilter.Off (StorageFilter (streamFilters m))"
    and "checkRange (storageFilter.StartingBlock (StorageFilter (streamFilters m)))
           (storageFilter.EndingBlock (StorageFilter (streamFilters m)))
           (Int64 (BlockNumber (payload m)))"
    and "distinct (map fst (StorageNodes (payload m)))"
    and "(stateKey, nodes) \<in> set (StorageNodes (payload m))"
    and "checkNodeKeys (map (\<lambda>addr. AddressToKey L (HexToAddress L addr))
           (storageFilter.Addresses (StorageFilter (streamFilters m)))) stateKey"
  shows "\<exists>T' inner. filterStorage L m =
            (m\<lparr>response := (response m)\<lparr>StorageNodesRlp := Some T'\<rparr>\<rparr>, Returns None)
          \<and> T' stateKey = Some (Some inner)
          \<and> (\<forall>j. inner j =
                map_of (rev (map (\<lambda>n. (Key n, StorageNode.Value n))
                  (filter (\<lambda>n. checkNodeKeys (map (\<lambda>store. HexToKey L store)
                       (StorageKeys (StorageFilter (streamFilters m)))) (Key n)) nodes))) j)"
proof -
  let ?skf = "map (\<lambda>addr. AddressToKey L (HexToAddress L addr))
           (storageFilter.Addresses (StorageFilter (streamFilters m)))"
  let ?stkf = "map (\<lambda>store. HexToKey L store) (StorageKeys (StorageFilter (streamFilters m)))"
  let ?G = "fold (\<lambda>n g. if checkNodeKeys ?stkf (Key n)
                          then g(Key n \<mapsto> StorageNode.Value n) else g) nodes Map.empty"
  from filterStorage_loop_allocated [OF assms(1,4), of ?skf ?stkf] obtain T' where
    l: "filterStorage_loop ?skf ?stkf (StorageNodes (payload m)) m =
            (m\<lparr>response := (response m)\<lparr>StorageNodesRlp := Some T'\<rparr>\<rparr>, None)"
    and T': "\<And>k. T' k =
                (case map_of (StorageNodes (payload m)) k of
                   Some ns \<Rightarrow>
                     if checkNodeKeys ?skf k
                     then Some (Some (fold (\<lambda>n g. if checkNodeKeys ?stkf (Key n)
                                                  then g(Key n \<mapsto> StorageNode.Value n) else g)
                                        ns Map.empty))
                     else T k
                 | None \<Rightarrow> T k)"
    by blast
  from assms(4,5) have "map_of (StorageNodes (payload m)) stateKey = Some nodes" by simp
  with T' [of stateKey] assms(6) have "T' stateKey = Some (Some ?G)" by simp
  moreover from l assms(2,3) have "filterStorage L m =
            (m\<lparr>response := (response m)\<lparr>StorageNodesRlp := Some T'\<rparr>\<rparr>, Returns None)"
    by (simp add: filterStorage_def)
  moreover have "\<forall>j. ?G j = map_of (rev (map (\<lambda>n. (Key n, StorageNode.Value n))
                  (filter (\<lambda>n. checkNodeKeys ?stkf (Key n)) nodes))) j"
    by (simp add: fold_store_lookup split: option.splits)
  ultimately show ?thesis by blast
qed

subsection \<open>Errors and panics of the call\<close>

text \<open>An error that \<open>ScreenResponse\<close> returns is the error of an encoder on an uncle, a
  transaction or a receipt of the payload.\<close>

lemma encodeAll_Some_set:
  "snd (encodeAll enc xs) = Some err \<Longrightarrow> \<exists>x \<in> set xs. enc x = Inl err"
  by (induction xs) (auto split: sum.splits)

lemma matchedTrxs_subset: "set (matchedTrxs f ts mds) \<subseteq> set ts"
  by (auto simp: matchedTrxs_def dest: set_zip_leftD)

lemma matchedReceipts_subset: "set (matchedReceipts f rs mds) \<subseteq> set rs"
  by (auto simp: matchedReceipts_def dest: set_zip_leftD)

lemma filterHeaders_error:
  "filterHeaders L m = (m', Returns (Some err)) \<Longrightarrow>
   \<exists>u \<in> set (blockBody.Uncles (BlockBody (payload m))). EncodeToBytes L u = Inl err"
  by (auto simp: filterHeaders_eq Let_def split: if_splits dest: encodeAll_Some_set)

lemma filterTransactions_error:
  "filterTransactions L m = (m', Returns (Some err)) \<Longrightarrow>
   \<exists>t \<in> set (Transactions (BlockBody (payload m))). TrxEncodeRLP L t = Inl err"
  using matchedTrxs_subset
  by (fastforce simp: filterTransactions_eq Let_def split: if_splits option.splits
        dest: encodeAll_Some_set)

lemma filerReceipts_error:
  "filerReceipts L m = (m', Returns (Some err)) \<Longrightarrow>
   \<exists>r \<in> set (Receipts (payload m)). ReceiptEncodeRLP L r = Inl err"
  using matchedReceipts_subset
  by (fastforce simp: filerReceipts_eq Let_def split: if_splits option.splits
        dest: encodeAll_Some_set)

text \<open>
  Claim C1, at an input where it fails. The storage filter is on, block 150 is in its
  range 100 to 200, and it asks for address \<open>0xA\<close>, whose key is 10, and storage key
  \<open>0x1\<close>, whose key is 1. The payload has storage nodes with keys 1 and 2 for the state
  key 10, which the filter accepts. The call panics on the assignment into the nil
  \<open>StorageNodesRlp\<close>; no entry for the state key is made.
\<close>

theorem ScreenResponse_storage_nil_map:
  "\<not> storageFilter.Off (StorageFilter exampleStorageFilters)
   \<and> checkRange (storageFilter.StartingBlock (StorageFilter exampleStorageFilters))
       (storageFilter.EndingBlock (StorageFilter exampleStorageFilters))
       (Int64 (BlockNumber exampleBlock))
   \<and> StorageNodes exampleBlock = [(10, [\<lparr>Key = 1, Value = [5]\<rparr>, \<lparr>Key = 2, Value = [6]\<rparr>])]
   \<and> checkNodeKeys
       (map (\<lambda>addr. AddressToKey exampleLib (HexToAddress exampleLib addr))
          (storageFilter.Addresses (StorageFilter exampleStorageFilters))) 10
   \<and> checkNodeKeys
       (map (\<lambda>store. HexToKey exampleLib store) (StorageKeys (StorageFilter exampleStorageFilters))) 1
   \<and> snd (ScreenResponse exampleLib exampleStorageFilters exampleBlock)
       = Panicked NilMapAssignment
   \<and> StorageNodesRlp (response (fst (ScreenResponse exampleLib exampleStorageFilters exampleBlock)))
       = None"
  by (simp add: example_defs eval_defs)

text \<open>
  Claim C7, at an input where it fails. Every pass but the storage pass is off, so no
  encoder is called, and the encoders succeed on every uncle, transaction and receipt of
  the payload anyway. The call does not return a response with a nil error: it panics in
  the storage pass.
\<close>

theorem ScreenResponse_panics_without_encoding_failure:
  "map (EncodeToBytes exampleLib) (blockBody.Uncles (BlockBody exampleBlock)) = map Inr [[1], [2]]
   \<and> map (TrxEncodeRLP exampleLib) (Transactions (BlockBody exampleBlock))
       = map Inr [[1], [2], [3]]
   \<and> map (ReceiptEncodeRLP exampleLib) (Receipts exampleBlock) = map Inr [[1], [2]]
   \<and> snd (ScreenResponse exampleLib exampleOnlyStorageFilters exampleBlock)
       = Panicked NilMapAssignment"
  by (simp add: example_defs eval_defs)

text \<open>What holds of the claim on every input: the call ends in a panic, or returns an error
  of an encoder and no response, or returns a response and no error.\<close>

lemma ScreenResponse_error_or_response:
  "(\<exists>q. snd (ScreenResponse L f p) = Panicked q)
   \<or> (\<exists>err. snd (ScreenResponse L f p) = Returned None (Some err)
         \<and> ((\<exists>u \<in> set (blockBody.Uncles (BlockBody p)). EncodeToBytes L u = Inl err)
            \<or> (\<exists>t \<in> set (Transactions (BlockBody p)). TrxEncodeRLP L t = Inl err)
            \<or> (\<exists>r \<in> set (Receipts p). ReceiptEncodeRLP L r = Inl err)))
   \<or> (\<exists>r. snd (ScreenResponse L f p) = Returned (Some r) None)"
proof -
  let ?m0 = "\<lparr>streamFilters = f, response = new_ResponsePayload, payload = p\<rparr>"
  obtain m1 c1 where h: "filterHeaders L ?m0 = (m1, c1)" by (cases "filterHeaders L ?m0")
  obtain m2 c2 where t: "filterTransactions L m1 = (m2, c2)" by (cases "filterTransactions L m1")
  obtain m3 c3 where r: "filerReceipts L m2 = (m3, c3)" by (cases "filerReceipts L m2")
  obtain m4 c4 where s: "filterState L m3 = (m4, c4)" by (cases "filterState L m3")
  obtain m5 c5 where g: "filterStorage L m4 = (m5, c5)" by (cases "filterStorage L m4")
  from filterHeaders_frame [OF h] have 1: "streamFilters m1 = f \<and> payload m1 = p" by simp
  with filterTransactions_frame [OF t] have 2: "streamFilters m2 = f \<and> payload m2 = p" by simp
  with filerReceipts_frame [OF r] have 3: "streamFilters m3 = f \<and> payload m3 = p" by simp
  with filterState_frame [OF s] have 4: "streamFilters m4 = f \<and> payload m4 = p" by simp
  from s filterState_shape [of L m3] have c4: "c4 = Returns None" by auto
  have c5: "c5 = Returns None \<or> (\<exists>q. c5 = Panics q)"
  proof (cases c5)
    case (Returns e)
    from g Returns show ?thesis
      by (auto simp: filterStorage_def Let_def split: if_splits prod.splits option.splits)
  next
    case (Panics q)
    then show ?thesis by simp
  qed
  show ?thesis
  proof (cases c1)
    case (Panics q)
    with h show ?thesis by (simp add: ScreenResponse_def)
  next
    case (Returns e1)
    show ?thesis
    proof (cases e1)
      case (Some err)
      with h Returns filterHeaders_error [of L ?m0 m1 err] show ?thesis
        by (simp add: ScreenResponse_def)
    next
      case None
      note c1 = Returns None
      show ?thesis
      proof (cases c2)
        case (Panics q)
        with h c1 t show ?thesis by (simp add: ScreenResponse_def)
      next
        case (Returns e2)
        show ?thesis
        proof (cases e2)
          case (Some err)
          with h c1 t Returns filterTransactions_error [of L m1 m2 err] 1 show ?thesis
            by (simp add: ScreenResponse_def)
        next
          case None
          note c2 = Returns None
          show ?thesis
          proof (cases c3)
            case (Panics q)
            with h c1 t c2 r show ?thesis by (simp add: ScreenResponse_def)
          next
            case (Returns e3)
            show ?thesis
            proof (cases e3)
              case (Some err)
              with h c1 t c2 r Returns filerReceipts_error [of L m2 m3 err] 2 show ?thesis
                by (simp add: ScreenResponse_def)
            next
              case None
              with h c1 t c2 r Returns s c4 g c5 show ?thesis
                by (auto simp: ScreenResponse_def)
            qed
          qed
        qed
      qed
    qed
  qed
qed

end
